theory Spec2Isabelle
  imports Complex_Main "HOL-Library.Multiset"
begin

section \<open>Numbers and the rendering library's helpers\<close>

text \<open>
  JavaScript numbers are modelled as real numbers: the scroll state machine, the sampler
  and the edge builders are read as the exact arithmetic they approximate. Counts, array
  indices and generator seeds are natural numbers (every call site passes a non-negative
  integer seed).

  \<^verbatim>\<open>THREE.MathUtils.lerp(x, y, t)\<close> is \<open>(1 - t) * x + t * y\<close> and
  \<^verbatim>\<open>THREE.MathUtils.clamp(value, min, max)\<close> is
  \<^verbatim>\<open>Math.max(min, Math.min(max, value))\<close>.
\<close>

definition lerp :: "real \<Rightarrow> real \<Rightarrow> real \<Rightarrow> real" where
  "lerp a b t = (1 - t) * a + t * b"

definition clamp :: "real \<Rightarrow> real \<Rightarrow> real \<Rightarrow> real" where
  "clamp v lo hi = max lo (min hi v)"

section \<open>Scroll state machine (Experience, useFrame)\<close>

subsection \<open>Layer opacities\<close>

definition l1Opacity :: "real \<Rightarrow> real" where
  "l1Opacity offset = 1"

definition l2Opacity :: "real \<Rightarrow> real" where
  "l2Opacity offset =
     (if offset < 0.14 then 1
      else if offset < 0.18 then
        (let fadeProgress = (offset - 0.14) / (0.18 - 0.14) in 1 - fadeProgress)
      else if offset < 0.30 then 0
      else if offset < 0.38 then (offset - 0.30) / 0.08
      else 1)"

definition l3Opacity :: "real \<Rightarrow> real" where
  "l3Opacity offset =
     (if offset < 0.14 then 1
      else if offset < 0.18 then
        (let fadeProgress = (offset - 0.14) / (0.18 - 0.14) in 1 - fadeProgress)
      else if offset < 0.53 then 0
      else if offset < 0.61 then (offset - 0.53) / 0.08
      else if offset < 0.85 then 1
      else (let fadeProgress = (offset - 0.85) / 0.03 in 1 - fadeProgress))"

subsection \<open>Line growth and opacity of the three edge groups\<close>

definition FADED_OPACITY :: real where
  "FADED_OPACITY = 0.1"

definition LAYER_PAUSE :: real where
  "LAYER_PAUSE = 0.03"

text \<open>Each function returns the pair (growth, opacity) that the frame callback stores.\<close>

definition foundationToNetwork :: "real \<Rightarrow> real \<times> real" where
  "foundationToNetwork offset =
     (if offset < 0.18 then (0, 0)
      else if offset < 0.18 + LAYER_PAUSE then (0, 0)
      else if offset < 0.35 then
        (let growthProgress = (offset - 0.18 - LAYER_PAUSE) / (0.17 - LAYER_PAUSE)
         in (growthProgress, min 1 (growthProgress * 2)))
      else if offset < 0.38 then
        (let fadeProgress = (offset - 0.35) / 0.03
         in (1, lerp 1 FADED_OPACITY fadeProgress))
      else (1, FADED_OPACITY))"

definition networkToEcosystem :: "real \<Rightarrow> real \<times> real" where
  "networkToEcosystem offset =
     (if offset < 0.38 then (0, 0)
      else if offset < 0.38 + LAYER_PAUSE then (0, 0)
      else if offset < 0.58 then
        (let growthProgress = (offset - 0.38 - LAYER_PAUSE) / (0.20 - LAYER_PAUSE)
         in (growthProgress, min 1 (growthProgress * 2)))
      else if offset < 0.61 then
        (let fadeProgress = (offset - 0.58) / 0.03
         in (1, lerp 1 FADED_OPACITY fadeProgress))
      else (1, FADED_OPACITY))"

definition ecosystemUpward :: "real \<Rightarrow> real \<times> real" where
  "ecosystemUpward offset =
     (if offset < 0.61 then (0, 0)
      else if offset < 0.61 + LAYER_PAUSE then (0, 0)
      else if offset < 0.78 then
        (let growthProgress = (offset - 0.61 - LAYER_PAUSE) / (0.17 - LAYER_PAUSE)
         in (growthProgress, min 1 (growthProgress * 2)))
      else (1, 1))"

subsection \<open>Camera target\<close>

record cam =
  cam_z :: real
  cam_y :: real
  cam_lookAt :: real

definition lookAtOffset :: "bool \<Rightarrow> real" where
  "lookAtOffset isMobile = (if isMobile then - 4 else 0)"

definition foundationCam :: "bool \<Rightarrow> cam" where
  "foundationCam isMobile = \<lparr>cam_z = 12, cam_y = 6.5, cam_lookAt = 1.2 + lookAtOffset isMobile\<rparr>"

definition networkCam :: "bool \<Rightarrow> cam" where
  "networkCam isMobile = \<lparr>cam_z = 12, cam_y = 14.5, cam_lookAt = 9.5 + lookAtOffset isMobile\<rparr>"

definition ecosystemCam :: "bool \<Rightarrow> cam" where
  "ecosystemCam isMobile = \<lparr>cam_z = 12, cam_y = 20.5, cam_lookAt = 17.5 + lookAtOffset isMobile\<rparr>"

text \<open>\<^verbatim>\<open>Math.atan2(y, x)\<close>, the angle of the point (x, y).\<close>

definition atan2 :: "real \<Rightarrow> real \<Rightarrow> real" where
  "atan2 y x =
     (if 0 < x then arctan (y / x)
      else if x < 0 then (if 0 \<le> y then arctan (y / x) + pi else arctan (y / x) - pi)
      else if 0 < y then pi / 2
      else if y < 0 then - (pi / 2)
      else 0)"

text \<open>
  The first block of the callback: \<open>yPos\<close> and \<open>lookAtY\<close> in every phase, \<open>zPos\<close> in
  every phase but the intro (where the second block assigns it).
\<close>

definition phasePose :: "bool \<Rightarrow> real \<Rightarrow> real option \<times> real \<times> real" where
  "phasePose isMobile offset =
     (if offset < 0.18 then
        (let t = min (offset / 0.18) 1 in
         if t < 0.5 then
           (let dropT = t / 0.5
            in (None, lerp 50 20 dropT, lerp 0 (8 + lookAtOffset isMobile) dropT))
         else
           (let arcT = (t - 0.5) / 0.5;
                easedT = arcT * arcT * (3 - 2 * arcT)
            in (None, lerp 20 (cam_y (foundationCam isMobile)) easedT,
                lerp (8 + lookAtOffset isMobile) (cam_lookAt (foundationCam isMobile)) easedT)))
      else if offset < 0.35 then
        (Some (cam_z (foundationCam isMobile)), cam_y (foundationCam isMobile),
         cam_lookAt (foundationCam isMobile))
      else if offset < 0.38 then
        (let t = (offset - 0.35) / 0.03
         in (Some (cam_z (foundationCam isMobile)),
             lerp (cam_y (foundationCam isMobile)) (cam_y (networkCam isMobile)) t,
             lerp (cam_lookAt (foundationCam isMobile)) (cam_lookAt (networkCam isMobile)) t))
      else if offset < 0.58 then
        (Some (cam_z (networkCam isMobile)), cam_y (networkCam isMobile),
         cam_lookAt (networkCam isMobile))
      else if offset < 0.61 then
        (let t = (offset - 0.58) / 0.03
         in (Some (cam_z (ecosystemCam isMobile)),
             lerp (cam_y (networkCam isMobile)) (cam_y (ecosystemCam isMobile)) t,
             lerp (cam_lookAt (networkCam isMobile)) (cam_lookAt (ecosystemCam isMobile)) t))
      else
        (Some (cam_z (ecosystemCam isMobile)), cam_y (ecosystemCam isMobile),
         cam_lookAt (ecosystemCam isMobile)))"

text \<open>
  The second block: \<open>xPos\<close>, and \<open>zPos\<close> during the intro. The result is the target
  position \<open>(x, y, z)\<close> and the target look-at height.
\<close>

record pose =
  pos_x :: real
  pos_y :: real
  pos_z :: real
  look_y :: real

definition targetPose :: "bool \<Rightarrow> real \<Rightarrow> pose option" where
  "targetPose isMobile offset =
     (case phasePose isMobile offset of (zPos0, yPos, lookAtY) \<Rightarrow>
        (let targetX = (if isMobile then 24 else 16 :: real);
             (xPos, zPos) =
               (if offset < 0.18 then
                  (let t = min (offset / 0.18) 1; lim = 0.5 in
                   if t < lim then (0.5, Some 1)
                   else
                     (let arcT = (t - lim) / (1 - lim);
                          easedT = arcT * arcT * (3 - 2 * arcT);
                          startRadius = sqrt (0.5 * 0.5 + 1 * 1);
                          endRadius = sqrt (targetX * targetX
                            + cam_z (foundationCam isMobile) * cam_z (foundationCam isMobile));
                          radius = lerp startRadius endRadius easedT;
                          startAngle = atan2 1 0.5;
                          endAngle = atan2 (cam_z (foundationCam isMobile)) targetX;
                          angle = lerp startAngle endAngle easedT
                      in (cos angle * radius, Some (sin angle * radius))))
                else (targetX, zPos0))
         in case zPos of
              None \<Rightarrow> None
            | Some zp \<Rightarrow> Some \<lparr>pos_x = xPos, pos_y = yPos, pos_z = zp, look_y = lookAtY\<rparr>))"

text \<open>
  The smoothing of the camera: every coordinate moves from its current value towards the
  target by the factor \<open>min (delta * 4) 1\<close>. The camera looks at \<open>(0, lookAtY, 0)\<close>.
\<close>

record camera =
  currentCameraPos :: "real \<times> real \<times> real"
  currentLookAt :: "real \<times> real \<times> real"

definition cameraFrame :: "bool \<Rightarrow> real \<Rightarrow> real \<Rightarrow> camera \<Rightarrow> camera option" where
  "cameraFrame isMobile offset delta cur =
     (case targetPose isMobile offset of
        None \<Rightarrow> None
      | Some target \<Rightarrow>
          (let lerpFactor = min (delta * 4) 1 in
           case (currentCameraPos cur, currentLookAt cur) of
             ((cx, cy, cz), (lx, ly, lz)) \<Rightarrow>
               Some \<lparr>currentCameraPos =
                        (lerp cx (pos_x target) lerpFactor, lerp cy (pos_y target) lerpFactor,
                         lerp cz (pos_z target) lerpFactor),
                      currentLookAt =
                        (lerp lx 0 lerpFactor, lerp ly (look_y target) lerpFactor,
                         lerp lz 0 lerpFactor)\<rparr>))"

subsection \<open>The frame callback\<close>

text \<open>
  The opacity and growth references as the callback leaves them. They depend on the
  progress alone; the camera part of the callback is \<open>cameraFrame\<close> above, and the slow
  rotation of the group touches none of these values.
\<close>

record refs =
  layer1Opacity :: real
  layer2Opacity :: real
  layer3Opacity :: real
  foundationToNetworkGrowth :: real
  networkToEcosystemGrowth :: real
  ecosystemUpwardGrowth :: real
  foundationToNetworkOpacity :: real
  networkToEcosystemOpacity :: real
  ecosystemUpwardOpacity :: real

definition useFrame :: "real \<Rightarrow> refs" where
  "useFrame scrollProgress =
     (let offset = scrollProgress in
      \<lparr>layer1Opacity = l1Opacity offset,
       layer2Opacity = l2Opacity offset,
       layer3Opacity = l3Opacity offset,
       foundationToNetworkGrowth = fst (foundationToNetwork offset),
       networkToEcosystemGrowth = fst (networkToEcosystem offset),
       ecosystemUpwardGrowth = fst (ecosystemUpward offset),
       foundationToNetworkOpacity = snd (foundationToNetwork offset),
       networkToEcosystemOpacity = snd (networkToEcosystem offset),
       ecosystemUpwardOpacity = snd (ecosystemUpward offset)\<rparr>)"

subsection \<open>Blackout target (MainApp)\<close>

definition MAX_SCROLL_PROGRESS :: real where
  "MAX_SCROLL_PROGRESS = 0.82"

definition BLACKOUT_START :: real where
  "BLACKOUT_START = 0.80"

definition BLACKOUT_END :: real where
  "BLACKOUT_END = 0.82"

text \<open>
  The effect that sets \<open>blackoutTargetRef.current\<close> from \<open>scrollProgress\<close>. On mobile it
  returns at once and the reference keeps its value \<open>cur\<close>.
\<close>

definition blackoutTarget :: "bool \<Rightarrow> real \<Rightarrow> real \<Rightarrow> real" where
  "blackoutTarget isMobile scrollProgress cur =
     (if isMobile then cur
      else if scrollProgress \<ge> BLACKOUT_START \<and> scrollProgress < BLACKOUT_END then
        (let blackoutT = (scrollProgress - BLACKOUT_START) / (BLACKOUT_END - BLACKOUT_START)
         in blackoutT)
      else if scrollProgress \<ge> BLACKOUT_END then 1
      else 0)"

subsection \<open>Per-line growth (InterLayerLines, useFrame)\<close>

definition lineGrowth :: "real \<Rightarrow> real \<Rightarrow> real" where
  "lineGrowth baseGrowth offset =
     (let offsetGrowth = (baseGrowth - offset) / (1 - offset)
      in clamp offsetGrowth 0 1)"

section \<open>Point sampler\<close>

subsection \<open>Seeded random number generator\<close>

text \<open>
  \<^verbatim>\<open>seededRandom(seed)\<close> returns a closure over the variable \<open>state\<close>, initially the
  seed. The model passes the state explicitly: \<open>rng state\<close> is the number the closure
  returns and the state it leaves behind. Both source files define the generator with the
  same text. On natural numbers the remainder is exact (the products stay far below
  \<open>2^53\<close>).
\<close>

definition seededRandom :: "nat \<Rightarrow> nat" where
  "seededRandom seed = seed"

definition rng :: "nat \<Rightarrow> real \<times> nat" where
  "rng state =
     (let state' = (state * 9301 + 49297) mod 233280
      in (real state' / 233280, state'))"


subsection \<open>Nodes and errors\<close>

datatype vector3 = Vector3 (vec_x: real) (vec_y: real) (vec_z: real)

text \<open>
  Reading a property of \<open>undefined\<close> throws a \<^verbatim>\<open>TypeError\<close>; an array read out of
  range gives \<open>undefined\<close>.
\<close>

datatype error = TypeError

definition numSeeds :: nat where
  "numSeeds = 5"

definition maxAttempts :: nat where
  "maxAttempts = 30"

text \<open>\<^verbatim>\<open>xs.splice(i, 1)\<close> for \<open>0 \<le> i\<close>: the array without its element at \<open>i\<close>.\<close>

definition splice1 :: "'a list \<Rightarrow> nat \<Rightarrow> 'a list" where
  "splice1 xs i = take i xs @ drop (Suc i) xs"

lemma length_splice1: "i < length xs \<Longrightarrow> length (splice1 xs i) = length xs - 1"
  by (simp add: splice1_def)

subsection \<open>LayerNodes: the \<open>particles\<close> memo\<close>

text \<open>The loop of \<open>isValid\<close> over the accepted points, returning at the first close one.\<close>

fun farEnough_LN :: "real \<Rightarrow> real \<Rightarrow> real \<Rightarrow> vector3 list \<Rightarrow> bool" where
  "farEnough_LN minDist x z [] = True"
| "farEnough_LN minDist x z (p # points) =
     (let dx = x - vec_x p; dz = z - vec_z p
      in if sqrt (dx * dx + dz * dz) < minDist then False
         else farEnough_LN minDist x z points)"

definition isValid_LN :: "real \<Rightarrow> real \<Rightarrow> real \<Rightarrow> real \<Rightarrow> vector3 list \<Rightarrow> bool" where
  "isValid_LN radius minDist x z points =
     (let distFromCenter = sqrt (x * x + z * z)
      in if distFromCenter > radius \<or> distFromCenter < radius * 0.15 then False
         else farEnough_LN minDist x z points)"

text \<open>The seed loop, over the indices \<open>i = 0, ..., numSeeds - 1\<close>.\<close>

fun seedPoints_LN :: "real \<Rightarrow> nat list \<Rightarrow> vector3 list \<Rightarrow> nat \<Rightarrow> vector3 list \<times> nat" where
  "seedPoints_LN radius [] temp st = (temp, st)"
| "seedPoints_LN radius (i # is) temp st =
     (let angle = (real i / real numSeeds) * pi * 2;
          r = radius * 0.4
      in case rng st of (v, st1) \<Rightarrow>
           seedPoints_LN radius is
             (temp @ [Vector3 (r * cos angle) ((v - 0.5) * 0.1) (r * sin angle)]) st1)"

text \<open>
  The inner loop: \<open>n\<close> attempts are left. It returns the accepted point, if any, and the
  generator's state.
\<close>

fun attempts_LN ::
  "real \<Rightarrow> real \<Rightarrow> vector3 \<Rightarrow> vector3 list \<Rightarrow> nat \<Rightarrow> nat \<Rightarrow> vector3 option \<times> nat" where
  "attempts_LN radius minDist point temp 0 st = (None, st)"
| "attempts_LN radius minDist point temp (Suc n) st =
     (case rng st of (a, st1) \<Rightarrow>
      case rng st1 of (d, st2) \<Rightarrow>
        (let angle = a * pi * 2;
             dist = minDist * (1 + d);
             newX = vec_x point + cos angle * dist;
             newZ = vec_z point + sin angle * dist
         in if isValid_LN radius minDist newX newZ temp then
              (case rng st2 of (v, st3) \<Rightarrow> (Some (Vector3 newX ((v - 0.5) * 0.1) newZ), st3))
            else attempts_LN radius minDist point temp n st2))"

text \<open>The \<open>while\<close> loop of the Poisson disc sampling.\<close>

function sampling_LN ::
  "nat \<Rightarrow> real \<Rightarrow> real \<Rightarrow> vector3 list \<Rightarrow> vector3 list \<Rightarrow> nat \<Rightarrow> error + vector3 list" where
  "sampling_LN cnt radius minDist temp activeList st =
     (if length activeList > 0 \<and> length temp < cnt then
        (case rng st of (r, st1) \<Rightarrow>
           (let randIndex = \<lfloor>r * real (length activeList)\<rfloor>
            in if 0 \<le> randIndex \<and> randIndex < int (length activeList) then
                 (let point = activeList ! nat randIndex
                  in case attempts_LN radius minDist point temp maxAttempts st1 of
                       (Some newPoint, st2) \<Rightarrow>
                         sampling_LN cnt radius minDist
                           (temp @ [newPoint]) (activeList @ [newPoint]) st2
                     | (None, st2) \<Rightarrow>
                         sampling_LN cnt radius minDist
                           temp (splice1 activeList (nat randIndex)) st2)
               else Inl TypeError))
      else Inr temp)"
  by pat_completeness auto
termination
  by (relation "measure (\<lambda>(cnt, radius, minDist, temp, activeList, st).
        2 * (cnt - length temp) + length activeList)")
     (auto simp add: length_splice1 nat_less_iff)

declare sampling_LN.simps [simp del]

definition particles :: "nat \<Rightarrow> real \<Rightarrow> nat \<Rightarrow> error + vector3 list" where
  "particles cnt radius seed =
     (let minDist = radius / sqrt (real cnt) * 1.8
      in case seedPoints_LN radius [0..<numSeeds] [] (seededRandom seed) of
           (temp, st) \<Rightarrow> sampling_LN cnt radius minDist temp temp st)"

subsection \<open>Distances in the plane of a layer\<close>

text \<open>
  The two quantities \<open>isValid\<close> compares: the distance of a point from the centre and the
  distance between two points, both in the \<open>xz\<close> plane (\<open>y\<close> is only jitter).
\<close>

definition distFromCenter :: "vector3 \<Rightarrow> real" where
  "distFromCenter p = sqrt (vec_x p * vec_x p + vec_z p * vec_z p)"

definition distXZ :: "vector3 \<Rightarrow> vector3 \<Rightarrow> real" where
  "distXZ a b =
     (let dx = vec_x a - vec_x b; dz = vec_z a - vec_z b
      in sqrt (dx * dx + dz * dz))"

text \<open>The invariant of the sampling loop.\<close>

definition sampled :: "real \<Rightarrow> real \<Rightarrow> vector3 list \<Rightarrow> vector3 list \<Rightarrow> bool" where
  "sampled radius minDist seeds t =
     (take numSeeds t = seeds
      \<and> (\<forall>p \<in> set t. radius * 0.15 \<le> distFromCenter p \<and> distFromCenter p \<le> radius)
      \<and> (\<forall>i j. i < j \<and> j < length t \<and> numSeeds \<le> j \<longrightarrow> minDist \<le> distXZ (t ! j) (t ! i)))"

subsection \<open>InterLayerLines: \<open>generateNodePositions\<close>\<close>

text \<open>
  The accepted points are plain objects with \<open>x\<close>, \<open>y\<close> and \<open>z\<close>, modelled by
  \<^typ>\<open>vector3\<close> as well. The active list starts as a copy of the accepted points and then
  receives objects with \<open>x\<close> and \<open>z\<close> only: its elements have an optional \<open>y\<close>.
\<close>

datatype active_point = ActivePoint (ap_x: real) (ap_y: "real option") (ap_z: real)

fun farEnough_IL :: "real \<Rightarrow> real \<Rightarrow> real \<Rightarrow> vector3 list \<Rightarrow> bool" where
  "farEnough_IL minDist x z [] = True"
| "farEnough_IL minDist x z (p # points) =
     (let dx = x - vec_x p; dz = z - vec_z p
      in if sqrt (dx * dx + dz * dz) < minDist then False
         else farEnough_IL minDist x z points)"

definition isValid_IL :: "real \<Rightarrow> real \<Rightarrow> real \<Rightarrow> real \<Rightarrow> vector3 list \<Rightarrow> bool" where
  "isValid_IL radius minDist x z points =
     (let distFromCenter = sqrt (x * x + z * z)
      in if distFromCenter > radius \<or> distFromCenter < radius * 0.15 then False
         else farEnough_IL minDist x z points)"

fun seedPoints_IL :: "real \<Rightarrow> nat list \<Rightarrow> vector3 list \<Rightarrow> nat \<Rightarrow> vector3 list \<times> nat" where
  "seedPoints_IL radius [] temp st = (temp, st)"
| "seedPoints_IL radius (i # is) temp st =
     (let angle = (real i / 5) * pi * 2;
          r = radius * 0.4
      in case rng st of (v, st1) \<Rightarrow>
           seedPoints_IL radius is
             (temp @ [Vector3 (r * cos angle) ((v - 0.5) * 0.1) (r * sin angle)]) st1)"

fun attempts_IL ::
  "real \<Rightarrow> real \<Rightarrow> active_point \<Rightarrow> vector3 list \<Rightarrow> nat \<Rightarrow> nat \<Rightarrow> vector3 option \<times> nat" where
  "attempts_IL radius minDist point temp 0 st = (None, st)"
| "attempts_IL radius minDist point temp (Suc n) st =
     (case rng st of (a, st1) \<Rightarrow>
      case rng st1 of (d, st2) \<Rightarrow>
        (let angle = a * pi * 2;
             dist = minDist * (1 + d);
             newX = ap_x point + cos angle * dist;
             newZ = ap_z point + sin angle * dist
         in if isValid_IL radius minDist newX newZ temp then
              (case rng st2 of (v, st3) \<Rightarrow> (Some (Vector3 newX ((v - 0.5) * 0.1) newZ), st3))
            else attempts_IL radius minDist point temp n st2))"

function sampling_IL ::
  "nat \<Rightarrow> real \<Rightarrow> real \<Rightarrow> vector3 list \<Rightarrow> active_point list \<Rightarrow> nat \<Rightarrow> error + vector3 list" where
  "sampling_IL cnt radius minDist temp activeList st =
     (if length activeList > 0 \<and> length temp < cnt then
        (case rng st of (r, st1) \<Rightarrow>
           (let randIndex = \<lfloor>r * real (length activeList)\<rfloor>
            in if 0 \<le> randIndex \<and> randIndex < int (length activeList) then
                 (let point = activeList ! nat randIndex
                  in case attempts_IL radius minDist point temp 30 st1 of
                       (Some newPoint, st2) \<Rightarrow>
                         sampling_IL cnt radius minDist
                           (temp @ [newPoint])
                           (activeList @ [ActivePoint (vec_x newPoint) None (vec_z newPoint)]) st2
                     | (None, st2) \<Rightarrow>
                         sampling_IL cnt radius minDist
                           temp (splice1 activeList (nat randIndex)) st2)
               else Inl TypeError))
      else Inr temp)"
  by pat_completeness auto
termination
  by (relation "measure (\<lambda>(cnt, radius, minDist, temp, activeList, st).
        2 * (cnt - length temp) + length activeList)")
     (auto simp add: length_splice1 nat_less_iff)

declare sampling_IL.simps [simp del]

definition generateNodePositions :: "nat \<Rightarrow> real \<Rightarrow> nat \<Rightarrow> error + vector3 list" where
  "generateNodePositions cnt radius seed =
     (let minDist = radius / sqrt (real cnt) * 1.8
      in case seedPoints_IL radius [0..<5] [] (seededRandom seed) of
           (temp, st) \<Rightarrow>
             sampling_IL cnt radius minDist temp
               (map (\<lambda>p. ActivePoint (vec_x p) (Some (vec_y p)) (vec_z p)) temp) st)"

text \<open>
  The two active lists agree when they hold the same \<open>x\<close> and \<open>z\<close>, the only fields the
  loops read from them.
\<close>

definition sameXZ :: "active_point list \<Rightarrow> vector3 list \<Rightarrow> bool" where
  "sameXZ qs ps = (map (\<lambda>q. (ap_x q, ap_z q)) qs = map (\<lambda>p. (vec_x p, vec_z p)) ps)"

section \<open>Topology builder\<close>

subsection \<open>InterLayerLines: the random subset of edges (\<open>nodePairs\<close>)\<close>














subsection \<open>LayerNodes: internal and external lines\<close>

text \<open>\<^verbatim>\<open>Vector3.distanceTo\<close>: the Euclidean distance.\<close>

definition distanceTo :: "vector3 \<Rightarrow> vector3 \<Rightarrow> real" where
  "distanceTo a b =
     (let dx = vec_x a - vec_x b; dy = vec_y a - vec_y b; dz = vec_z a - vec_z b
      in sqrt (dx * dx + dy * dy + dz * dz))"

record neighbor =
  nb_idx :: nat
  nb_dist :: real

text \<open>
  \<^verbatim>\<open>Array.prototype.sort\<close> is stable; \<^const>\<open>sort_key\<close> is a stable insertion sort.
  An internal line \<^verbatim>\<open>[p1, particles[n.idx]]\<close> holds two references into \<open>particles\<close>; the
  model keeps the two indices, and \<open>internalLines\<close> reads the nodes.
\<close>

definition neighbors :: "vector3 list \<Rightarrow> nat \<Rightarrow> neighbor list" where
  "neighbors ps i =
     map (\<lambda>j. \<lparr>nb_idx = j, nb_dist = distanceTo (ps ! i) (ps ! j)\<rparr>)
       (filter (\<lambda>j. i \<noteq> j) [0..<length ps])"

definition internalFrom :: "vector3 list \<Rightarrow> nat \<Rightarrow> (nat \<times> nat) list" where
  "internalFrom ps i =
     map (\<lambda>n. (i, nb_idx n))
       (filter (\<lambda>n. i < nb_idx n) (take 2 (sort_key nb_dist (neighbors ps i))))"

definition internalEdges :: "bool \<Rightarrow> vector3 list \<Rightarrow> (nat \<times> nat) list" where
  "internalEdges connectInternal ps =
     (if connectInternal then concat (map (internalFrom ps) [0..<length ps]) else [])"

definition internalLines :: "bool \<Rightarrow> vector3 list \<Rightarrow> (vector3 \<times> vector3) list" where
  "internalLines connectInternal ps =
     map (\<lambda>(i, j). (ps ! i, ps ! j)) (internalEdges connectInternal ps)"

definition nearestNodes :: "vector3 \<Rightarrow> vector3 list \<Rightarrow> (vector3 \<times> real) list" where
  "nearestNodes p1 connectTo = map (\<lambda>p2. (p2, distanceTo p1 p2)) connectTo"

definition connectionsPerNode :: "vector3 list \<Rightarrow> vector3 list \<Rightarrow> int" where
  "connectionsPerNode ps connectTo =
     min 3 \<lceil>real (length connectTo) / real (length ps)\<rceil>"

definition externalFrom ::
  "real \<Rightarrow> vector3 list \<Rightarrow> vector3 list \<Rightarrow> vector3 \<Rightarrow> (vector3 \<times> vector3) list" where
  "externalFrom radius ps connectTo p1 =
     map (\<lambda>n. (p1, fst n))
       (filter (\<lambda>n. snd n < radius * 3)
          (take (nat (connectionsPerNode ps connectTo))
             (sort_key snd (nearestNodes p1 connectTo))))"

definition externalLines ::
  "real \<Rightarrow> vector3 list \<Rightarrow> vector3 list \<Rightarrow> (vector3 \<times> vector3) list" where
  "externalLines radius ps connectTo =
     (if length connectTo > 0 then concat (map (externalFrom radius ps connectTo) ps) else [])"
section \<open>Properties of the scroll state machine\<close>

subsection \<open>Ranges of the opacity and growth values\<close>

lemma l1Opacity_range: "0 \<le> l1Opacity p \<and> l1Opacity p \<le> 1"
  by (simp add: l1Opacity_def)

lemma l2Opacity_range: "0 \<le> l2Opacity p \<and> l2Opacity p \<le> 1"
  by (simp add: l2Opacity_def Let_def field_simps)

lemma l3Opacity_range_iff: "(0 \<le> l3Opacity p \<and> l3Opacity p \<le> 1) = (p \<le> 0.88)"
  by (auto simp add: l3Opacity_def Let_def field_simps)

lemma foundationToNetwork_range:
  "0 \<le> fst (foundationToNetwork p) \<and> fst (foundationToNetwork p) \<le> 1
   \<and> 0 \<le> snd (foundationToNetwork p) \<and> snd (foundationToNetwork p) \<le> 1"
  by (simp add: foundationToNetwork_def LAYER_PAUSE_def FADED_OPACITY_def lerp_def Let_def
      field_simps)

lemma networkToEcosystem_range:
  "0 \<le> fst (networkToEcosystem p) \<and> fst (networkToEcosystem p) \<le> 1
   \<and> 0 \<le> snd (networkToEcosystem p) \<and> snd (networkToEcosystem p) \<le> 1"
  by (simp add: networkToEcosystem_def LAYER_PAUSE_def FADED_OPACITY_def lerp_def Let_def
      field_simps)

lemma ecosystemUpward_range:
  "0 \<le> fst (ecosystemUpward p) \<and> fst (ecosystemUpward p) \<le> 1
   \<and> 0 \<le> snd (ecosystemUpward p) \<and> snd (ecosystemUpward p) \<le> 1"
  by (simp add: ecosystemUpward_def LAYER_PAUSE_def Let_def field_simps)

text \<open>
  Every value but the third layer's opacity stays in \<open>[0, 1]\<close> at every progress, below
  0 and above 1 included; the third layer's opacity does so exactly up to 0.88.
\<close>

lemma useFrame_ranges_but_layer3:
  "0 \<le> layer1Opacity (useFrame p) \<and> layer1Opacity (useFrame p) \<le> 1
   \<and> 0 \<le> layer2Opacity (useFrame p) \<and> layer2Opacity (useFrame p) \<le> 1
   \<and> 0 \<le> foundationToNetworkGrowth (useFrame p) \<and> foundationToNetworkGrowth (useFrame p) \<le> 1
   \<and> 0 \<le> networkToEcosystemGrowth (useFrame p) \<and> networkToEcosystemGrowth (useFrame p) \<le> 1
   \<and> 0 \<le> ecosystemUpwardGrowth (useFrame p) \<and> ecosystemUpwardGrowth (useFrame p) \<le> 1
   \<and> 0 \<le> foundationToNetworkOpacity (useFrame p) \<and> foundationToNetworkOpacity (useFrame p) \<le> 1
   \<and> 0 \<le> networkToEcosystemOpacity (useFrame p) \<and> networkToEcosystemOpacity (useFrame p) \<le> 1
   \<and> 0 \<le> ecosystemUpwardOpacity (useFrame p) \<and> ecosystemUpwardOpacity (useFrame p) \<le> 1"
  using l1Opacity_range [of p] l2Opacity_range [of p] foundationToNetwork_range [of p]
    networkToEcosystem_range [of p] ecosystemUpward_range [of p]
  by (simp add: useFrame_def)

lemma useFrame_layer3_range_iff:
  "(0 \<le> layer3Opacity (useFrame p) \<and> layer3Opacity (useFrame p) \<le> 1) = (p \<le> 0.88)"
  using l3Opacity_range_iff [of p] by (simp add: useFrame_def)

text \<open>
  C1, as stated: at every progress, every opacity and growth value lies in \<open>[0, 1]\<close>.
  It fails for the third layer's opacity: the last branch, the fade-out during the
  blackout, is not clamped, and at progress 1 the value is \<open>-4\<close>.
\<close>

theorem layer3_opacity_counterexample:
  "layer3Opacity (useFrame 1) = - 4 \<and> \<not> 0 \<le> layer3Opacity (useFrame 1)"
  by (simp add: useFrame_def l3Opacity_def Let_def)

text \<open>
  C1, amended: at every progress, below 0 and above 1 included, the first two layer
  opacities, the three growth values and the three edge-group opacities lie in \<open>[0, 1]\<close>;
  the third layer's opacity lies in \<open>[0, 1]\<close> at every progress up to 0.88.
\<close>

theorem opacity_growth_ranges:
  "0 \<le> layer1Opacity (useFrame p) \<and> layer1Opacity (useFrame p) \<le> 1
   \<and> 0 \<le> layer2Opacity (useFrame p) \<and> layer2Opacity (useFrame p) \<le> 1
   \<and> (p \<le> 0.88 \<longrightarrow> 0 \<le> layer3Opacity (useFrame p) \<and> layer3Opacity (useFrame p) \<le> 1)
   \<and> 0 \<le> foundationToNetworkGrowth (useFrame p) \<and> foundationToNetworkGrowth (useFrame p) \<le> 1
   \<and> 0 \<le> networkToEcosystemGrowth (useFrame p) \<and> networkToEcosystemGrowth (useFrame p) \<le> 1
   \<and> 0 \<le> ecosystemUpwardGrowth (useFrame p) \<and> ecosystemUpwardGrowth (useFrame p) \<le> 1
   \<and> 0 \<le> foundationToNetworkOpacity (useFrame p) \<and> foundationToNetworkOpacity (useFrame p) \<le> 1
   \<and> 0 \<le> networkToEcosystemOpacity (useFrame p) \<and> networkToEcosystemOpacity (useFrame p) \<le> 1
   \<and> 0 \<le> ecosystemUpwardOpacity (useFrame p) \<and> ecosystemUpwardOpacity (useFrame p) \<le> 1"
proof -
  from useFrame_layer3_range_iff [of p]
  have "p \<le> 0.88 \<longrightarrow> 0 \<le> layer3Opacity (useFrame p) \<and> layer3Opacity (useFrame p) \<le> 1"
    by (simp only: simp_thms)
  with useFrame_ranges_but_layer3 [of p] show ?thesis
    by (elim conjE) (intro conjI; assumption)
qed

theorem opacity_growth_ranges_witness:
  "0 \<le> layer3Opacity (useFrame 0.87) \<and> layer3Opacity (useFrame 0.87) \<le> 1
   \<and> 0 \<le> layer3Opacity (useFrame (- 1)) \<and> layer3Opacity (useFrame (- 1)) \<le> 1
   \<and> 0 \<le> layer2Opacity (useFrame 2) \<and> layer2Opacity (useFrame 2) \<le> 1
   \<and> 0 \<le> ecosystemUpwardOpacity (useFrame 2) \<and> ecosystemUpwardOpacity (useFrame 2) \<le> 1
   \<and> 0 \<le> foundationToNetworkGrowth (useFrame (- 1))
   \<and> foundationToNetworkGrowth (useFrame (- 1)) \<le> 1"
  using opacity_growth_ranges [of "0.87"] opacity_growth_ranges [of "- 1"]
    opacity_growth_ranges [of 2]
  by simp

subsection \<open>Blackout target\<close>

lemma targetPose_ecosystem:
  "0.61 \<le> p \<Longrightarrow> targetPose m p =
     Some \<lparr>pos_x = (if m then 24 else 16), pos_y = 20.5, pos_z = 12,
           look_y = 17.5 + lookAtOffset m\<rparr>"
  by (simp add: targetPose_def phasePose_def ecosystemCam_def Let_def)

lemma targetPose_defined: "targetPose m p \<noteq> None"
  by (simp add: targetPose_def phasePose_def Let_def split: prod.splits)

lemma lerp_same: "lerp a a t = a"
  by (simp add: lerp_def algebra_simps)

lemma cameraFrame_holds:
  "0.61 \<le> p \<Longrightarrow>
   cameraFrame m p delta
     \<lparr>currentCameraPos = (if m then 24 else 16, 20.5, 12),
      currentLookAt = (0, 17.5 + lookAtOffset m, 0)\<rparr>
   = Some \<lparr>currentCameraPos = (if m then 24 else 16, 20.5, 12),
           currentLookAt = (0, 17.5 + lookAtOffset m, 0)\<rparr>"
  by (simp add: cameraFrame_def targetPose_ecosystem lerp_same Let_def)

text \<open>
  C5, as stated: the blackout target is 0 below 0.78, ramps linearly over \<open>[0.78, 0.88)\<close>
  and is 1 from 0.88 on. It fails on the code: at 0.79 the claimed ramp gives 0.1 and the
  code 0; at 0.85 the claimed ramp gives 0.7 and the code 1.
\<close>

theorem blackout_target_claimed_bounds_counterexample:
  "blackoutTarget False 0.79 0 = 0
   \<and> blackoutTarget False 0.79 0 \<noteq> (0.79 - 0.78) / (0.88 - 0.78)
   \<and> blackoutTarget False 0.85 0 = 1
   \<and> blackoutTarget False 0.85 0 \<noteq> (0.85 - 0.78) / (0.88 - 0.78)"
  by (simp add: blackoutTarget_def BLACKOUT_START_def BLACKOUT_END_def)

text \<open>
  C5, amended: on the desktop path the blackout target is 0 for progress below 0.80, ramps
  linearly from 0 to 1 over \<open>[0.80, 0.82)\<close> and holds at 1 from 0.82 on, while the camera
  holds its pose: the target is the ecosystem pose (it is from 0.61 on) and a camera at
  that pose stays there in every frame. On mobile the effect leaves the target as it is.
\<close>

theorem blackout_target_ramp:
  "(p < 0.80 \<longrightarrow> blackoutTarget False p c = 0)
   \<and> (0.80 \<le> p \<and> p < 0.82 \<longrightarrow> blackoutTarget False p c = (p - 0.80) / (0.82 - 0.80))
   \<and> (0.82 \<le> p \<longrightarrow> blackoutTarget False p c = 1)
   \<and> (0.61 \<le> p \<longrightarrow>
        targetPose m p =
          Some \<lparr>pos_x = (if m then 24 else 16), pos_y = 20.5, pos_z = 12,
                look_y = 17.5 + lookAtOffset m\<rparr>
        \<and> cameraFrame m p delta
             \<lparr>currentCameraPos = (if m then 24 else 16, 20.5, 12),
              currentLookAt = (0, 17.5 + lookAtOffset m, 0)\<rparr>
           = Some \<lparr>currentCameraPos = (if m then 24 else 16, 20.5, 12),
                   currentLookAt = (0, 17.5 + lookAtOffset m, 0)\<rparr>)
   \<and> blackoutTarget True p c = c"
proof -
  have b: "(p < 0.80 \<longrightarrow> blackoutTarget False p c = 0)
   \<and> (0.80 \<le> p \<and> p < 0.82 \<longrightarrow> blackoutTarget False p c = (p - 0.80) / (0.82 - 0.80))
   \<and> (0.82 \<le> p \<longrightarrow> blackoutTarget False p c = 1)
   \<and> blackoutTarget True p c = c"
    by (simp add: blackoutTarget_def BLACKOUT_START_def BLACKOUT_END_def)
  have c: "0.61 \<le> p \<longrightarrow>
        targetPose m p =
          Some \<lparr>pos_x = (if m then 24 else 16), pos_y = 20.5, pos_z = 12,
                look_y = 17.5 + lookAtOffset m\<rparr>
        \<and> cameraFrame m p delta
             \<lparr>currentCameraPos = (if m then 24 else 16, 20.5, 12),
              currentLookAt = (0, 17.5 + lookAtOffset m, 0)\<rparr>
           = Some \<lparr>currentCameraPos = (if m then 24 else 16, 20.5, 12),
                   currentLookAt = (0, 17.5 + lookAtOffset m, 0)\<rparr>"
  proof
    assume "0.61 \<le> p"
    with targetPose_ecosystem [of p m] cameraFrame_holds [of p m delta]
    show "targetPose m p =
          Some \<lparr>pos_x = (if m then 24 else 16), pos_y = 20.5, pos_z = 12,
                look_y = 17.5 + lookAtOffset m\<rparr>
        \<and> cameraFrame m p delta
             \<lparr>currentCameraPos = (if m then 24 else 16, 20.5, 12),
              currentLookAt = (0, 17.5 + lookAtOffset m, 0)\<rparr>
           = Some \<lparr>currentCameraPos = (if m then 24 else 16, 20.5, 12),
                   currentLookAt = (0, 17.5 + lookAtOffset m, 0)\<rparr>"
      by (intro conjI)
  qed
  from b c show ?thesis by (elim conjE) (intro conjI; assumption)
qed

theorem blackout_target_ramp_witness:
  "blackoutTarget False 0.5 0.3 = 0 \<and> blackoutTarget False 0.805 0.3 = 0.25
   \<and> blackoutTarget False 0.81 0.3 = 0.5 \<and> blackoutTarget False 0.9 0.3 = 1
   \<and> targetPose False 0.81 =
       Some \<lparr>pos_x = 16, pos_y = 20.5, pos_z = 12, look_y = 17.5\<rparr>
   \<and> cameraFrame False 0.81 0.016
        \<lparr>currentCameraPos = (16, 20.5, 12), currentLookAt = (0, 17.5, 0)\<rparr>
      = Some \<lparr>currentCameraPos = (16, 20.5, 12), currentLookAt = (0, 17.5, 0)\<rparr>"
  using blackout_target_ramp [of "0.5" "0.3" False "0.016"]
    blackout_target_ramp [of "0.805" "0.3" False "0.016"]
    blackout_target_ramp [of "0.81" "0.3" False "0.016"]
    blackout_target_ramp [of "0.9" "0.3" False "0.016"]
  by (simp add: lookAtOffset_def)

subsection \<open>Growth and opacity curves of the edge groups\<close>



subsection \<open>Per-line growth\<close>

lemma clamp_mono: "a \<le> b \<Longrightarrow> clamp a lo hi \<le> clamp b lo hi"
  by (auto simp add: clamp_def min_def max_def)

text \<open>
  C10. For a phase offset \<open>off\<close> in \<open>[0, 0.6)\<close> the divisor \<open>1 - off\<close> is positive, the
  line's growth is 0 whenever the group growth is at most \<open>off\<close>, 1 whenever the group growth
  is at least 1, and it does not decrease when the group growth increases.
\<close>

theorem lineGrowth_staggered:
  assumes "0 \<le> off" and "off < 0.6"
  shows "0 < 1 - off
    \<and> (g \<le> off \<longrightarrow> lineGrowth g off = 0)
    \<and> (1 \<le> g \<longrightarrow> lineGrowth g off = 1)
    \<and> (g \<le> g' \<longrightarrow> lineGrowth g off \<le> lineGrowth g' off)"
proof -
  from assms have pos: "0 < 1 - off" by simp
  have zero: "lineGrowth g off = 0" if "g \<le> off"
  proof -
    from that pos have "(g - off) / (1 - off) \<le> 0"
      by (simp add: divide_nonpos_pos)
    then show ?thesis by (simp add: lineGrowth_def clamp_def)
  qed
  have one: "lineGrowth g off = 1" if "1 \<le> g"
  proof -
    from that pos have "1 \<le> (g - off) / (1 - off)"
      by (simp add: field_simps)
    then show ?thesis by (simp add: lineGrowth_def clamp_def)
  qed
  have mono: "lineGrowth g off \<le> lineGrowth g' off" if "g \<le> g'"
  proof -
    from that pos have "(g - off) / (1 - off) \<le> (g' - off) / (1 - off)"
      by (simp add: divide_right_mono)
    then show ?thesis by (simp add: lineGrowth_def clamp_mono)
  qed
  from pos zero one mono show ?thesis by blast
qed

theorem lineGrowth_staggered_witness:
  "lineGrowth 0 0.3 = 0 \<and> lineGrowth 0.3 0.3 = 0 \<and> lineGrowth 1 0.3 = 1
   \<and> lineGrowth 0.3 0.3 \<le> lineGrowth 0.65 0.3 \<and> lineGrowth 0.65 0.3 = 0.5"
proof -
  have h: "(0::real) \<le> 0.3" "(0.3::real) < 0.6" by simp_all
  have v: "lineGrowth 0.65 0.3 = 0.5" by (simp add: lineGrowth_def clamp_def)
  from lineGrowth_staggered [OF h, of 0] lineGrowth_staggered [OF h, of "0.3" "0.65"]
    lineGrowth_staggered [OF h, of 1] v
  show ?thesis by simp
qed

section \<open>Properties of the topology builder\<close>

subsection \<open>Internal edges (\<open>internalLines\<close>)\<close>

lemma filter_drop_sorted_empty:
  fixes f :: "'a \<Rightarrow> real"
  assumes "sorted (map f S)" and "m < length S"
  shows "filter (\<lambda>b. f b < f (S ! m)) (drop m S) = []"
proof -
  have "f (S ! m) \<le> f y" if "y \<in> set (drop m S)" for y
  proof -
    from that obtain i where i: "i < length (drop m S)" "y = drop m S ! i"
      by (auto simp add: in_set_conv_nth)
    then have "y = S ! (m + i)" and "m + i < length S" by simp_all
    with assms(1) have "map f S ! m \<le> map f S ! (m + i)"
      by (intro sorted_nth_mono) simp_all
    with \<open>y = S ! (m + i)\<close> \<open>m + i < length S\<close> assms(2) show ?thesis by simp
  qed
  then have "\<not> f y < f (S ! m)" if "y \<in> set (drop m S)" for y
    using that by (simp add: not_less)
  then show ?thesis by (simp add: filter_empty_conv)
qed

lemma closer_count_sorted:
  fixes f :: "'a \<Rightarrow> real"
  assumes "q \<in> set (take k (sort_key f xs))"
  shows "length (filter (\<lambda>b. f b < f q) xs) < k"
proof -
  define S where "S = sort_key f xs"
  from assms obtain m where m: "m < length (take k S)" "q = take k S ! m"
    by (auto simp add: in_set_conv_nth S_def)
  then have mk: "m < k" and mS: "m < length S" and q: "q = S ! m" by simp_all
  have srt: "sorted (map f S)" by (simp add: S_def)
  have "filter (\<lambda>b. f b < f q) S
      = filter (\<lambda>b. f b < f q) (take m S) @ filter (\<lambda>b. f b < f q) (drop m S)"
    by (metis append_take_drop_id filter_append)
  also have "filter (\<lambda>b. f b < f q) (drop m S) = []"
    unfolding q using srt mS by (rule filter_drop_sorted_empty)
  finally have "filter (\<lambda>b. f b < f q) S = filter (\<lambda>b. f b < f q) (take m S)"
    by simp
  then have "length (filter (\<lambda>b. f b < f q) S) \<le> length (take m S)"
    by (simp only: length_filter_le)
  with mS have le: "length (filter (\<lambda>b. f b < f q) S) \<le> m" by simp
  have "mset (filter (\<lambda>b. f b < f q) S) = mset (filter (\<lambda>b. f b < f q) xs)"
    by (simp add: S_def)
  then have "length (filter (\<lambda>b. f b < f q) S) = length (filter (\<lambda>b. f b < f q) xs)"
    by (rule mset_eq_length)
  with le mk show ?thesis by simp
qed

lemma distinct_concat_map_fst:
  assumes "distinct xs"
    and "\<And>x. x \<in> set xs \<Longrightarrow> distinct (g x)"
    and "\<And>x e. x \<in> set xs \<Longrightarrow> e \<in> set (g x) \<Longrightarrow> fst e = x"
  shows "distinct (concat (map g xs))"
  using assms
proof (induction xs)
  case Nil
  then show ?case by simp
next
  case (Cons a xs)
  have "set (g a) \<inter> set (concat (map g xs)) = {}"
  proof (rule ccontr)
    assume "set (g a) \<inter> set (concat (map g xs)) \<noteq> {}"
    then obtain e x where "e \<in> set (g a)" "x \<in> set xs" "e \<in> set (g x)" by auto
    with Cons.prems(3) [of a e] Cons.prems(3) [of x e] have "a = x" by simp
    with \<open>x \<in> set xs\<close> Cons.prems(1) show False by simp
  qed
  moreover have "distinct (concat (map g xs))"
    using Cons by simp
  moreover have "distinct (g a)" using Cons.prems(2) by simp
  ultimately show ?case by simp
qed

lemma neighbors_idx: "n \<in> set (neighbors ps i) \<Longrightarrow> nb_idx n \<noteq> i \<and> nb_idx n < length ps
   \<and> nb_dist n = distanceTo (ps ! i) (ps ! nb_idx n)"
  by (auto simp add: neighbors_def)

lemma distinct_neighbors_idx: "distinct (map nb_idx (neighbors ps i))"
  by (simp add: neighbors_def comp_def distinct_map_filter)

lemma internalFrom_props:
  assumes "e \<in> set (internalFrom ps i)"
  shows "fst e = i \<and> i < snd e \<and> snd e < length ps
    \<and> length (filter (\<lambda>k. k \<noteq> i \<and> distanceTo (ps ! i) (ps ! k) < distanceTo (ps ! i) (ps ! snd e))
         [0..<length ps]) < 2"
proof -
  from assms obtain n where n: "n \<in> set (take 2 (sort_key nb_dist (neighbors ps i)))"
    "i < nb_idx n" "e = (i, nb_idx n)"
    by (auto simp add: internalFrom_def)
  from n(1) have mem: "n \<in> set (neighbors ps i)"
    by (auto dest: in_set_takeD)
  from closer_count_sorted [OF n(1)]
  have "length (filter (\<lambda>b. nb_dist b < nb_dist n) (neighbors ps i)) < 2" .
  also have "length (filter (\<lambda>b. nb_dist b < nb_dist n) (neighbors ps i))
     = length (filter (\<lambda>k. k \<noteq> i \<and> distanceTo (ps ! i) (ps ! k) < nb_dist n) [0..<length ps])"
    by (simp add: neighbors_def filter_map comp_def conj_commute neq_commute)
  finally show ?thesis using n neighbors_idx [OF mem] by simp
qed

lemma distinct_internalFrom: "distinct (internalFrom ps i)"
proof -
  have "distinct (map nb_idx (sort_key nb_dist (neighbors ps i)))"
    using distinct_neighbors_idx [of ps i]
    by (metis mset_eq_imp_distinct_iff mset_map mset_sort)
  then have "distinct (map nb_idx (take 2 (sort_key nb_dist (neighbors ps i))))"
    by (simp add: take_map [symmetric])
  then have "distinct (map nb_idx (filter (\<lambda>n. i < nb_idx n)
      (take 2 (sort_key nb_dist (neighbors ps i)))))"
    by (rule distinct_map_filter)
  then show ?thesis
    by (simp add: internalFrom_def distinct_map inj_on_def comp_def)
qed

lemma length_internalFrom: "length (internalFrom ps i) \<le> 2"
  by (simp add: internalFrom_def) (metis length_filter_le le_trans length_take min.cobounded2)


lemma internalEdges_mem:
  "e \<in> set (internalEdges c ps) \<Longrightarrow> fst e < length ps \<and> e \<in> set (internalFrom ps (fst e))"
  by (auto simp add: internalEdges_def split: if_splits dest: internalFrom_props)

lemma distinct_internalEdges: "distinct (internalEdges c ps)"
  unfolding internalEdges_def
  using distinct_concat_map_fst [of "[0..<length ps]" "internalFrom ps"]
  by (simp add: distinct_internalFrom internalFrom_props)

text \<open>
  C9. Every internal edge \<open>(i, j)\<close> has \<open>i < j\<close>, comes from node \<open>i\<close>'s own list, and
  \<open>j\<close> is one of the two nearest neighbours of \<open>i\<close> (fewer than two other nodes are strictly
  closer to \<open>i\<close>); a node contributes at most two edges; no edge occurs twice, and never
  both \<open>(i, j)\<close> and \<open>(j, i)\<close>.
\<close>

theorem internal_edges_no_duplicates:
  "(\<forall>e \<in> set (internalEdges c ps).
      fst e < snd e \<and> snd e < length ps
      \<and> e \<in> set (internalFrom ps (fst e))
      \<and> length (filter (\<lambda>k. k \<noteq> fst e
            \<and> distanceTo (ps ! fst e) (ps ! k) < distanceTo (ps ! fst e) (ps ! snd e))
          [0..<length ps]) < 2)
   \<and> length (internalFrom ps i) \<le> 2
   \<and> distinct (internalEdges c ps)
   \<and> (\<forall>a b. (a, b) \<in> set (internalEdges c ps) \<longrightarrow> (b, a) \<notin> set (internalEdges c ps))"
proof -
  have one: "fst e < snd e \<and> snd e < length ps
      \<and> e \<in> set (internalFrom ps (fst e))
      \<and> length (filter (\<lambda>k. k \<noteq> fst e
            \<and> distanceTo (ps ! fst e) (ps ! k) < distanceTo (ps ! fst e) (ps ! snd e))
          [0..<length ps]) < 2"
    if "e \<in> set (internalEdges c ps)" for e
    using internalEdges_mem [OF that] internalFrom_props [of e ps "fst e"] by simp
  have "(b, a) \<notin> set (internalEdges c ps)" if "(a, b) \<in> set (internalEdges c ps)" for a b
  proof
    assume "(b, a) \<in> set (internalEdges c ps)"
    with that one [of "(a, b)"] one [of "(b, a)"] show False by simp
  qed
  with one length_internalFrom [of ps i] distinct_internalEdges [of c ps]
  show ?thesis by blast
qed

lemma sqrt2_gt1: "1 < sqrt 2"
  by (simp add: real_less_rsqrt)

theorem internal_edges_no_duplicates_witness:
  "internalEdges True [Vector3 0 0 0, Vector3 1 0 0, Vector3 0 0 1] = [(0, 1), (0, 2), (1, 2)]
   \<and> (1, 0) \<notin> set (internalEdges True [Vector3 0 0 0, Vector3 1 0 0, Vector3 0 0 1])
   \<and> distinct (internalEdges True [Vector3 0 0 0, Vector3 1 0 0, Vector3 0 0 1])"
proof -
  have upt: "[0..<3] = [0, 1, 2]" by (simp add: upt_rec)
  have ev: "internalEdges True [Vector3 0 0 0, Vector3 1 0 0, Vector3 0 0 1]
      = [(0, 1), (0, 2), (1, 2)]"
    using sqrt2_gt1
    by (simp add: internalEdges_def internalFrom_def neighbors_def distanceTo_def upt)
  with internal_edges_no_duplicates [of True "[Vector3 0 0 0, Vector3 1 0 0, Vector3 0 0 1]" 0]
  show ?thesis by simp
qed

subsection \<open>Inter-layer edges (\<open>externalLines\<close>)\<close>

lemma length_externalFrom:
  "length (externalFrom radius ps connectTo p1)
     \<le> nat (min 3 \<lceil>real (length connectTo) / real (length ps)\<rceil>)"
  unfolding externalFrom_def connectionsPerNode_def length_map
  by (rule le_trans [OF length_filter_le]) simp

lemma externalFrom_props:
  assumes "e \<in> set (externalFrom radius ps connectTo p1)"
  shows "fst e = p1 \<and> snd e \<in> set connectTo \<and> distanceTo p1 (snd e) < radius * 3
    \<and> length (filter (\<lambda>b. distanceTo p1 b < distanceTo p1 (snd e)) connectTo)
        < nat (min 3 \<lceil>real (length connectTo) / real (length ps)\<rceil>)"
proof -
  let ?k = "nat (connectionsPerNode ps connectTo)"
  from assms obtain n where n: "n \<in> set (take ?k (sort_key snd (nearestNodes p1 connectTo)))"
    "snd n < radius * 3" "e = (p1, fst n)"
    by (auto simp add: externalFrom_def)
  from n(1) have "n \<in> set (nearestNodes p1 connectTo)"
    by (auto dest: in_set_takeD)
  then have mem: "fst n \<in> set connectTo" and d: "snd n = distanceTo p1 (fst n)"
    by (auto simp add: nearestNodes_def)
  from closer_count_sorted [OF n(1)]
  have "length (filter (\<lambda>b. snd b < snd n) (nearestNodes p1 connectTo)) < ?k" .
  also have "length (filter (\<lambda>b. snd b < snd n) (nearestNodes p1 connectTo))
      = length (filter (\<lambda>b. distanceTo p1 b < snd n) connectTo)"
    by (simp add: nearestNodes_def filter_map comp_def)
  finally show ?thesis using n mem d by (simp add: connectionsPerNode_def)
qed

lemma length_concat_le:
  assumes "\<And>x. x \<in> set xs \<Longrightarrow> length (g x) \<le> k"
  shows "length (concat (map g xs)) \<le> length xs * k"
  using assms
proof (induction xs)
  case Nil
  then show ?case by simp
next
  case (Cons a xs)
  then have "length (g a) \<le> k" and "length (concat (map g xs)) \<le> length xs * k"
    by simp_all
  then show ?case by simp
qed

text \<open>
  C7. A node \<open>p1\<close> of layer A gets at most \<open>min 3 \<lceil>|B| / |A|\<rceil>\<close> edges; each of them joins
  \<open>p1\<close> to a node of B that is among the nearest ones (fewer than that many nodes of B are
  strictly closer) and is shorter than three times the radius; the edge list is made of
  the per-node lists; with no node in A or in B there is no edge (the functions are total:
  nothing throws).
\<close>

theorem external_lines_bounded:
  "length (externalFrom radius ps connectTo p1)
     \<le> nat (min 3 \<lceil>real (length connectTo) / real (length ps)\<rceil>)
   \<and> (\<forall>e \<in> set (externalFrom radius ps connectTo p1).
        fst e = p1 \<and> snd e \<in> set connectTo \<and> distanceTo p1 (snd e) < 3 * radius
        \<and> length (filter (\<lambda>b. distanceTo p1 b < distanceTo p1 (snd e)) connectTo)
            < nat (min 3 \<lceil>real (length connectTo) / real (length ps)\<rceil>))
   \<and> (\<forall>e \<in> set (externalLines radius ps connectTo).
        fst e \<in> set ps \<and> e \<in> set (externalFrom radius ps connectTo (fst e)))
   \<and> length (externalLines radius ps connectTo)
       \<le> length ps * nat (min 3 \<lceil>real (length connectTo) / real (length ps)\<rceil>)
   \<and> externalLines radius [] connectTo = []
   \<and> externalLines radius ps [] = []"
proof -
  have a: "\<forall>e \<in> set (externalFrom radius ps connectTo p1).
        fst e = p1 \<and> snd e \<in> set connectTo \<and> distanceTo p1 (snd e) < 3 * radius
        \<and> length (filter (\<lambda>b. distanceTo p1 b < distanceTo p1 (snd e)) connectTo)
            < nat (min 3 \<lceil>real (length connectTo) / real (length ps)\<rceil>)"
    using externalFrom_props [of _ radius ps connectTo p1] by (simp add: mult.commute)
  have b: "\<forall>e \<in> set (externalLines radius ps connectTo).
        fst e \<in> set ps \<and> e \<in> set (externalFrom radius ps connectTo (fst e))"
  proof
    fix e
    assume "e \<in> set (externalLines radius ps connectTo)"
    then obtain x where x: "x \<in> set ps" "e \<in> set (externalFrom radius ps connectTo x)"
      by (auto simp add: externalLines_def split: if_splits)
    from externalFrom_props [OF x(2)] have "fst e = x" by simp
    with x show "fst e \<in> set ps \<and> e \<in> set (externalFrom radius ps connectTo (fst e))"
      by simp
  qed
  have c: "length (externalLines radius ps connectTo)
       \<le> length ps * nat (min 3 \<lceil>real (length connectTo) / real (length ps)\<rceil>)"
    using length_concat_le [of ps "externalFrom radius ps connectTo", OF length_externalFrom]
    by (simp add: externalLines_def)
  have d: "externalLines radius [] connectTo = [] \<and> externalLines radius ps [] = []"
    by (simp add: externalLines_def)
  from a b c d length_externalFrom [of radius ps connectTo p1] show ?thesis by blast
qed

theorem external_lines_bounded_witness:
  "externalLines 1 [Vector3 0 0 0] [Vector3 1 0 0, Vector3 0 0 0]
     = [(Vector3 0 0 0, Vector3 0 0 0), (Vector3 0 0 0, Vector3 1 0 0)]
   \<and> length (externalFrom 1 [Vector3 0 0 0] [Vector3 1 0 0, Vector3 0 0 0] (Vector3 0 0 0)) \<le> 2
   \<and> distanceTo (Vector3 0 0 0) (Vector3 1 0 0) < 3
   \<and> externalLines 1 [] [Vector3 1 0 0, Vector3 0 0 0] = []"
proof -
  have k: "nat (min 3 \<lceil>real (length [Vector3 1 0 0, Vector3 0 0 0])
      / real (length [Vector3 0 0 0])\<rceil>) = 2"
    by simp
  have ev: "externalFrom 1 [Vector3 0 0 0] [Vector3 1 0 0, Vector3 0 0 0] (Vector3 0 0 0)
     = [(Vector3 0 0 0, Vector3 0 0 0), (Vector3 0 0 0, Vector3 1 0 0)]"
    by (simp add: externalFrom_def connectionsPerNode_def nearestNodes_def distanceTo_def)
  then have ev2: "externalLines 1 [Vector3 0 0 0] [Vector3 1 0 0, Vector3 0 0 0]
     = [(Vector3 0 0 0, Vector3 0 0 0), (Vector3 0 0 0, Vector3 1 0 0)]"
    by (simp add: externalLines_def)
  from external_lines_bounded
    [of 1 "[Vector3 0 0 0]" "[Vector3 1 0 0, Vector3 0 0 0]" "Vector3 0 0 0"] ev ev2 k
  show ?thesis by simp
qed

section \<open>Properties of the point sampler\<close>

subsection \<open>The generator and the sampling loop\<close>

lemma rng_bounds:
  assumes "rng st = (r, st')"
  shows "0 \<le> r \<and> r < 1 \<and> st' < 233280"
proof -
  from assms have st': "st' = (st * 9301 + 49297) mod 233280" and r: "r = real st' / 233280"
    by (auto simp add: rng_def Let_def)
  have "st' < 233280" unfolding st' by simp
  then have "real st' < 233280" by linarith
  with r \<open>st' < 233280\<close> show ?thesis by simp
qed

lemma randIndex_range:
  assumes "rng st = (r, st')" and "0 < n"
  shows "0 \<le> \<lfloor>r * real n\<rfloor> \<and> \<lfloor>r * real n\<rfloor> < int n"
proof -
  from rng_bounds [OF assms(1)] have r: "0 \<le> r" "r < 1" by simp_all
  from r(1) have "0 \<le> r * real n" by simp
  then have lo: "0 \<le> \<lfloor>r * real n\<rfloor>" by simp
  from r(2) assms(2) have "r * real n < real n" by simp
  then have "\<lfloor>r * real n\<rfloor> < int n" by (simp add: floor_less_iff)
  with lo show ?thesis by simp
qed

lemma attempts_LN_valid:
  "attempts_LN radius minDist point temp n st = (Some p, st')
   \<Longrightarrow> isValid_LN radius minDist (vec_x p) (vec_z p) temp"
proof (induction n arbitrary: st)
  case 0
  then show ?case by simp
next
  case (Suc n)
  then show ?case
    by (auto simp add: Let_def split: prod.splits if_splits)
qed

lemma sampling_LN_stop:
  "\<not> (length activeList > 0 \<and> length temp < cnt)
   \<Longrightarrow> sampling_LN cnt radius minDist temp activeList st = Inr temp"
  by (subst sampling_LN.simps) auto

lemma sampling_LN_step:
  assumes "length activeList > 0" and "length temp < cnt"
    and r: "rng st = (r, st1)"
    and a: "attempts_LN radius minDist (activeList ! nat \<lfloor>r * real (length activeList)\<rfloor>)
             temp maxAttempts st1 = (res, st2)"
  shows "sampling_LN cnt radius minDist temp activeList st =
     (case res of
        Some newPoint \<Rightarrow>
          sampling_LN cnt radius minDist (temp @ [newPoint]) (activeList @ [newPoint]) st2
      | None \<Rightarrow>
          sampling_LN cnt radius minDist temp
            (splice1 activeList (nat \<lfloor>r * real (length activeList)\<rfloor>)) st2)"
proof -
  from randIndex_range [OF r assms(1)]
  have "0 \<le> \<lfloor>r * real (length activeList)\<rfloor>
      \<and> \<lfloor>r * real (length activeList)\<rfloor> < int (length activeList)" .
  with assms(1,2) r a show ?thesis
    by (subst sampling_LN.simps) (simp add: Let_def split: option.split)
qed

lemma sampling_LN_invariant:
  assumes step: "\<And>t p. Q t \<Longrightarrow> length t < cnt
      \<Longrightarrow> isValid_LN radius minDist (vec_x p) (vec_z p) t \<Longrightarrow> Q (t @ [p])"
  shows "Q temp \<Longrightarrow> \<exists>ps. sampling_LN cnt radius minDist temp activeList st = Inr ps \<and> Q ps"
proof (induction "2 * (cnt - length temp) + length activeList"
    arbitrary: temp activeList st rule: less_induct)
  case less
  show ?case
  proof (cases "length activeList > 0 \<and> length temp < cnt")
    case False
    with less.prems show ?thesis by (simp add: sampling_LN_stop)
  next
    case True
    obtain r st1 where r: "rng st = (r, st1)" by (cases "rng st")
    define ri where "ri = nat \<lfloor>r * real (length activeList)\<rfloor>"
    from randIndex_range [OF r, of "length activeList"] True
    have ri: "ri < length activeList" by (simp add: ri_def nat_less_iff)
    obtain res st2 where
      a: "attempts_LN radius minDist (activeList ! ri) temp maxAttempts st1 = (res, st2)"
      by (cases "attempts_LN radius minDist (activeList ! ri) temp maxAttempts st1")
    note unfold = sampling_LN_step [OF _ _ r a [unfolded ri_def], folded ri_def, of cnt]
    show ?thesis
    proof (cases res)
      case None
      from ri have "2 * (cnt - length temp) + length (splice1 activeList ri)
          < 2 * (cnt - length temp) + length activeList"
        by (simp add: length_splice1)
      from less.hyps [OF this less.prems] unfold True None show ?thesis by simp
    next
      case (Some p)
      from a Some have "isValid_LN radius minDist (vec_x p) (vec_z p) temp"
        by (auto dest: attempts_LN_valid)
      with step less.prems True have Q': "Q (temp @ [p])" by simp
      from True have "2 * (cnt - length (temp @ [p])) + length (activeList @ [p])
          < 2 * (cnt - length temp) + length activeList"
        by auto
      from less.hyps [OF this Q'] unfold True Some show ?thesis by simp
    qed
  qed
qed

lemma seedPoints_LN_length:
  "seedPoints_LN radius is temp st = (temp', st') \<Longrightarrow> length temp' = length temp + length is"
  by (induction "is" arbitrary: temp st) (auto simp add: Let_def split: prod.splits)


subsection \<open>The two implementations agree\<close>

lemma farEnough_IL_eq: "farEnough_IL minDist x z points = farEnough_LN minDist x z points"
  by (induction points) (simp_all add: Let_def)

lemma isValid_IL_eq: "isValid_IL radius minDist x z points = isValid_LN radius minDist x z points"
  by (simp add: isValid_IL_def isValid_LN_def farEnough_IL_eq)

lemma seedPoints_IL_eq: "seedPoints_IL radius is temp st = seedPoints_LN radius is temp st"
  by (induction "is" arbitrary: temp st) (simp_all add: numSeeds_def Let_def split: prod.splits)

lemma attempts_IL_eq:
  assumes "ap_x q = vec_x p" and "ap_z q = vec_z p"
  shows "attempts_IL radius minDist q temp n st = attempts_LN radius minDist p temp n st"
  using assms
  by (induction n arbitrary: st) (simp_all add: isValid_IL_eq Let_def split: prod.splits)

lemma sampling_IL_stop:
  "\<not> (length activeList > 0 \<and> length temp < cnt)
   \<Longrightarrow> sampling_IL cnt radius minDist temp activeList st = Inr temp"
  by (subst sampling_IL.simps) auto

lemma sampling_IL_step:
  assumes "length activeList > 0" and "length temp < cnt"
    and r: "rng st = (r, st1)"
    and a: "attempts_IL radius minDist (activeList ! nat \<lfloor>r * real (length activeList)\<rfloor>)
             temp 30 st1 = (res, st2)"
  shows "sampling_IL cnt radius minDist temp activeList st =
     (case res of
        Some newPoint \<Rightarrow>
          sampling_IL cnt radius minDist (temp @ [newPoint])
            (activeList @ [ActivePoint (vec_x newPoint) None (vec_z newPoint)]) st2
      | None \<Rightarrow>
          sampling_IL cnt radius minDist temp
            (splice1 activeList (nat \<lfloor>r * real (length activeList)\<rfloor>)) st2)"
proof -
  from randIndex_range [OF r assms(1)]
  have "0 \<le> \<lfloor>r * real (length activeList)\<rfloor>
      \<and> \<lfloor>r * real (length activeList)\<rfloor> < int (length activeList)" .
  with assms(1,2) r a show ?thesis
    by (subst sampling_IL.simps) (simp add: Let_def split: option.split)
qed

lemma sameXZ_length: "sameXZ qs ps \<Longrightarrow> length qs = length ps"
  unfolding sameXZ_def by (rule map_eq_imp_length_eq)

lemma sameXZ_nth:
  assumes "sameXZ qs ps" and "i < length ps"
  shows "ap_x (qs ! i) = vec_x (ps ! i) \<and> ap_z (qs ! i) = vec_z (ps ! i)"
proof -
  from assms have "i < length qs" by (simp add: sameXZ_length)
  from assms(1) have "map (\<lambda>q. (ap_x q, ap_z q)) qs ! i = map (\<lambda>p. (vec_x p, vec_z p)) ps ! i"
    by (simp add: sameXZ_def)
  with \<open>i < length qs\<close> assms(2) show ?thesis by simp
qed

lemma sameXZ_splice1: "sameXZ qs ps \<Longrightarrow> sameXZ (splice1 qs i) (splice1 ps i)"
  by (simp add: sameXZ_def splice1_def take_map [symmetric] drop_map [symmetric])

lemma sameXZ_snoc:
  "sameXZ qs ps \<Longrightarrow> sameXZ (qs @ [ActivePoint (vec_x p) None (vec_z p)]) (ps @ [p])"
  by (simp add: sameXZ_def)

lemma sameXZ_copy:
  "sameXZ (map (\<lambda>p. ActivePoint (vec_x p) (Some (vec_y p)) (vec_z p)) ps) ps"
  by (simp add: sameXZ_def comp_def)

lemma sampling_IL_eq:
  "sameXZ qs activeList
   \<Longrightarrow> sampling_IL cnt radius minDist temp qs st
       = sampling_LN cnt radius minDist temp activeList st"
proof (induction "2 * (cnt - length temp) + length activeList"
    arbitrary: temp activeList qs st rule: less_induct)
  case less
  note len = sameXZ_length [OF less.prems]
  show ?case
  proof (cases "length activeList > 0 \<and> length temp < cnt")
    case False
    with len show ?thesis by (simp add: sampling_LN_stop sampling_IL_stop)
  next
    case True
    obtain r st1 where r: "rng st = (r, st1)" by (cases "rng st")
    define ri where "ri = nat \<lfloor>r * real (length activeList)\<rfloor>"
    from randIndex_range [OF r, of "length activeList"] True
    have ri: "ri < length activeList" by (simp add: ri_def nat_less_iff)
    obtain res st2 where
      a: "attempts_LN radius minDist (activeList ! ri) temp maxAttempts st1 = (res, st2)"
      by (cases "attempts_LN radius minDist (activeList ! ri) temp maxAttempts st1")
    from sameXZ_nth [OF less.prems ri] a
    have a': "attempts_IL radius minDist (qs ! ri) temp 30 st1 = (res, st2)"
      by (simp add: attempts_IL_eq [of "qs ! ri" "activeList ! ri"] maxAttempts_def)
    note unfold = sampling_LN_step [OF _ _ r a [unfolded ri_def], folded ri_def, of cnt]
    note unfold' = sampling_IL_step [of qs temp cnt, OF _ _ r,
        unfolded len, OF _ _ a' [unfolded ri_def], folded ri_def]
    show ?thesis
    proof (cases res)
      case None
      from ri have "2 * (cnt - length temp) + length (splice1 activeList ri)
          < 2 * (cnt - length temp) + length activeList"
        by (simp add: length_splice1)
      from less.hyps [OF this sameXZ_splice1 [OF less.prems]] unfold unfold' True None
      show ?thesis by simp
    next
      case (Some p)
      from True have "2 * (cnt - length (temp @ [p])) + length (activeList @ [p])
          < 2 * (cnt - length temp) + length activeList"
        by auto
      from less.hyps [OF this sameXZ_snoc [OF less.prems]] unfold unfold' True Some
      show ?thesis by simp
    qed
  qed
qed

lemma generateNodePositions_eq_particles:
  "generateNodePositions cnt radius seed = particles cnt radius seed"
  by (simp add: generateNodePositions_def particles_def seedPoints_IL_eq numSeeds_def
      sampling_IL_eq [OF sameXZ_copy] split: prod.splits)

subsection \<open>Annulus and spacing\<close>

lemma farEnough_LN_iff:
  "farEnough_LN minDist x z points
     = (\<forall>q \<in> set points. minDist \<le> distXZ (Vector3 x y z) q)"
  by (induction points) (auto simp add: Let_def distXZ_def not_less)

lemma isValid_LN_annulus:
  "isValid_LN radius minDist (vec_x p) (vec_z p) t
   \<Longrightarrow> radius * 0.15 \<le> distFromCenter p \<and> distFromCenter p \<le> radius"
  by (simp add: isValid_LN_def distFromCenter_def Let_def split: if_splits)

lemma isValid_LN_far:
  assumes "isValid_LN radius minDist (vec_x p) (vec_z p) t" and "q \<in> set t"
  shows "minDist \<le> distXZ p q"
proof -
  from assms(1) have "farEnough_LN minDist (vec_x p) (vec_z p) t"
    by (simp add: isValid_LN_def Let_def split: if_splits)
  with assms(2) have "minDist \<le> distXZ (Vector3 (vec_x p) (vec_y p) (vec_z p)) q"
    by (simp add: farEnough_LN_iff [of _ _ _ _ "vec_y p"])
  then show ?thesis by simp
qed

lemma isValid_LN_negative_radius: "radius < 0 \<Longrightarrow> \<not> isValid_LN radius minDist x z t"
proof -
  assume "radius < 0"
  moreover have "0 \<le> sqrt (x * x + z * z)" by simp
  ultimately have "sqrt (x * x + z * z) > radius" by linarith
  then show ?thesis by (simp add: isValid_LN_def Let_def)
qed

lemma seed_distFromCenter:
  "0 \<le> radius \<Longrightarrow>
   distFromCenter (Vector3 (radius * 0.4 * cos a) y (radius * 0.4 * sin a)) = radius * 0.4"
proof -
  assume r: "0 \<le> radius"
  have "radius * 0.4 * cos a * (radius * 0.4 * cos a) + radius * 0.4 * sin a * (radius * 0.4 * sin a)
      = (radius * 0.4) * (radius * 0.4) * (cos a * cos a + sin a * sin a)"
    by (simp only: distrib_left mult.assoc mult.left_commute [of "cos a"]
        mult.left_commute [of "sin a"])
  also have "\<dots> = (radius * 0.4)\<^sup>2"
    by (simp only: sin_cos_squared_add3 power2_eq_square mult_1_right)
  finally show ?thesis using r by (simp add: distFromCenter_def)
qed

lemma seedPoints_LN_all:
  assumes "seedPoints_LN radius is temp st = (temp', st')"
    and "\<forall>p \<in> set temp. distFromCenter p = radius * 0.4" and "0 \<le> radius"
  shows "\<forall>p \<in> set temp'. distFromCenter p = radius * 0.4"
  using assms
proof (induction "is" arbitrary: temp st)
  case Nil
  then show ?case by simp
next
  case (Cons i "is")
  obtain v st1 where v: "rng st = (v, st1)" by (cases "rng st")
  let ?p = "Vector3 (radius * 0.4 * cos (real i / real numSeeds * pi * 2)) ((v - 0.5) * 0.1)
      (radius * 0.4 * sin (real i / real numSeeds * pi * 2))"
  from Cons.prems(1) v have rec: "seedPoints_LN radius is (temp @ [?p]) st1 = (temp', st')"
    by (simp add: Let_def)
  have "\<forall>p \<in> set (temp @ [?p]). distFromCenter p = radius * 0.4"
    using Cons.prems(2) seed_distFromCenter [OF Cons.prems(3)] by simp
  from Cons.IH [OF rec this Cons.prems(3)] show ?case .
qed

lemma seedPoints_LN_seeds:
  assumes "seedPoints_LN radius [0..<numSeeds] [] st = (temp, st')"
  shows "length temp = numSeeds"
    and "0 \<le> radius \<Longrightarrow> \<forall>p \<in> set temp. distFromCenter p = radius * 0.4"
  using seedPoints_LN_length [OF assms] seedPoints_LN_all [OF assms] by simp_all

lemma sampled_step:
  assumes "sampled radius minDist seeds t" and "length seeds = numSeeds"
    and v: "isValid_LN radius minDist (vec_x p) (vec_z p) t"
  shows "sampled radius minDist seeds (t @ [p])"
proof -
  from assms(1) have tk: "take numSeeds t = seeds"
    and ann: "\<forall>p \<in> set t. radius * 0.15 \<le> distFromCenter p \<and> distFromCenter p \<le> radius"
    and far: "\<And>i j. i < j \<Longrightarrow> j < length t \<Longrightarrow> numSeeds \<le> j
        \<Longrightarrow> minDist \<le> distXZ (t ! j) (t ! i)"
    by (simp_all add: sampled_def)
  from tk assms(2) have len: "numSeeds \<le> length t"
    by (metis length_take min.cobounded1)
  have 1: "take numSeeds (t @ [p]) = seeds" using tk len by simp
  have 2: "\<forall>q \<in> set (t @ [p]). radius * 0.15 \<le> distFromCenter q \<and> distFromCenter q \<le> radius"
    using ann isValid_LN_annulus [OF v] by simp
  have 3: "minDist \<le> distXZ ((t @ [p]) ! j) ((t @ [p]) ! i)"
    if "i < j" "j < length (t @ [p])" "numSeeds \<le> j" for i j
  proof (cases "j < length t")
    case True
    with that far [of i j] show ?thesis by (simp add: nth_append)
  next
    case False
    with that have j: "j = length t" and i: "i < length t" by simp_all
    from i have "t ! i \<in> set t" by simp
    from isValid_LN_far [OF v this] j i show ?thesis by (simp add: nth_append)
  qed
  from 1 2 3 show ?thesis unfolding sampled_def by blast
qed


lemma particles_sampled:
  assumes "0 \<le> radius"
  shows "\<exists>ps seeds st. seedPoints_LN radius [0..<numSeeds] [] (seededRandom seed) = (seeds, st)
    \<and> length seeds = numSeeds
    \<and> (\<forall>p \<in> set seeds. distFromCenter p = radius * 0.4)
    \<and> particles cnt radius seed = Inr ps
    \<and> sampled radius (radius / sqrt (real cnt) * 1.8) seeds ps"
proof -
  obtain seeds st where s: "seedPoints_LN radius [0..<numSeeds] [] (seededRandom seed) = (seeds, st)"
    by (cases "seedPoints_LN radius [0..<numSeeds] [] (seededRandom seed)")
  note len = seedPoints_LN_seeds(1) [OF s]
  note dst = seedPoints_LN_seeds(2) [OF s assms]
  let ?m = "radius / sqrt (real cnt) * 1.8"
  from dst assms
  have "\<forall>p \<in> set seeds. radius * 0.15 \<le> distFromCenter p \<and> distFromCenter p \<le> radius"
    by auto
  with len have init: "sampled radius ?m seeds seeds"
    by (simp add: sampled_def)
  from sampling_LN_invariant [of "sampled radius ?m seeds" cnt radius ?m seeds seeds st,
      OF sampled_step [OF _ len] init]
  obtain ps where "sampling_LN cnt radius ?m seeds seeds st = Inr ps" "sampled radius ?m seeds ps"
    by blast
  with s len dst show ?thesis by (simp add: particles_def)
qed

lemma particles_length:
  "\<exists>ps. particles cnt radius seed = Inr ps \<and> numSeeds \<le> length ps
     \<and> length ps \<le> max cnt numSeeds"
proof -
  obtain seeds st where s: "seedPoints_LN radius [0..<numSeeds] [] (seededRandom seed) = (seeds, st)"
    by (cases "seedPoints_LN radius [0..<numSeeds] [] (seededRandom seed)")
  note len = seedPoints_LN_seeds(1) [OF s]
  let ?m = "radius / sqrt (real cnt) * 1.8"
  let ?Q = "\<lambda>t. numSeeds \<le> length t \<and> length t \<le> max cnt numSeeds"
  have step: "?Q (t @ [p])" if "?Q t" "length t < cnt" for t :: "vector3 list" and p
    using that by simp
  from len have init: "?Q seeds" by simp
  from sampling_LN_invariant [of ?Q cnt radius ?m seeds seeds st, OF step init]
  obtain ps where "sampling_LN cnt radius ?m seeds seeds st = Inr ps" "?Q ps"
    by blast
  with s show ?thesis by (simp add: particles_def)
qed

lemma particles_negative_radius:
  assumes "radius < 0"
  shows "\<exists>ps. particles cnt radius seed = Inr ps \<and> length ps = numSeeds"
proof -
  obtain seeds st where s: "seedPoints_LN radius [0..<numSeeds] [] (seededRandom seed) = (seeds, st)"
    by (cases "seedPoints_LN radius [0..<numSeeds] [] (seededRandom seed)")
  note len = seedPoints_LN_seeds(1) [OF s]
  let ?m = "radius / sqrt (real cnt) * 1.8"
  let ?Q = "\<lambda>t :: vector3 list. length t = numSeeds"
  have step: "?Q (t @ [p])" if "isValid_LN radius ?m (vec_x p) (vec_z p) t" for t p
    using that isValid_LN_negative_radius [OF assms] by simp
  from sampling_LN_invariant [of ?Q cnt radius ?m seeds seeds st, OF step len]
  obtain ps where "sampling_LN cnt radius ?m seeds seeds st = Inr ps" "?Q ps"
    by blast
  with s show ?thesis by (simp add: particles_def)
qed

subsection \<open>Spacing of the seed points\<close>

lemma cos_two_fifths_pi: "0 < cos (2 * pi / 5) \<and> cos (2 * pi / 5) \<le> 0.325"
proof -
  define c where "c = cos (2 * pi / 5)"
  have "cos (3 * (2 * pi / 5)) = cos (2 * pi - 2 * (2 * pi / 5))"
    by (simp add: field_simps)
  also have "\<dots> = cos (2 * (2 * pi / 5))"
    by (rule cos_2pi_minus)
  finally have "4 * c ^ 3 - 3 * c = 2 * c ^ 2 - 1"
    by (simp only: cos_treble_cos cos_double_cos c_def)
  then have prod: "(c - 1) * (4 * c * c + 2 * c - 1) = 0"
    by (simp add: algebra_simps power2_eq_square power3_eq_cube)
  have "cos (2 * pi / 5) < cos 0"
    by (rule cos_monotone_0_pi) (simp_all add: field_simps)
  then have "c \<noteq> 1" by (simp add: c_def)
  with prod have quad: "4 * c * c + 2 * c - 1 = 0" by simp
  have pos: "0 < c"
    unfolding c_def by (rule cos_gt_zero_pi) (simp_all add: field_simps)
  have "c \<le> 0.325"
  proof (rule ccontr)
    assume "\<not> c \<le> 0.325"
    then have gt: "0.325 < c" by simp
    then have "0.325 * 0.325 < c * c"
      by (intro mult_strict_mono) simp_all
    with gt quad show False by simp
  qed
  with pos show ?thesis by (simp add: c_def)
qed

lemma cos_fifths_pi:
  assumes "0 < d" and "d < (5::nat)"
  shows "cos (real d * (2 * pi / 5)) \<le> 0.325"
proof -
  define c where "c = cos (2 * pi / 5)"
  from cos_two_fifths_pi have c: "0 < c" "c \<le> 0.325" by (simp_all add: c_def)
  have c2: "cos (2 * (2 * pi / 5)) \<le> 0.325"
  proof -
    from c have "c * c \<le> 0.325 * 0.325"
      by (intro mult_mono) simp_all
    then have "2 * c ^ 2 - 1 \<le> 0.325" by (simp add: power2_eq_square)
    then show ?thesis by (simp only: cos_double_cos c_def)
  qed
  from assms have "d = 1 \<or> d = 2 \<or> d = 3 \<or> d = 4" by auto
  then show ?thesis
  proof (elim disjE)
    assume "d = 1"
    with c show ?thesis by (simp add: c_def)
  next
    assume "d = 2"
    with c2 show ?thesis by simp
  next
    assume "d = 3"
    have "cos (3 * (2 * pi / 5)) = cos (2 * pi - 2 * (2 * pi / 5))"
      by (simp add: field_simps)
    also have "\<dots> = cos (2 * (2 * pi / 5))" by (rule cos_2pi_minus)
    finally show ?thesis using c2 \<open>d = 3\<close> by simp
  next
    assume "d = 4"
    have "cos (4 * (2 * pi / 5)) = cos (2 * pi - 2 * pi / 5)"
      by (simp add: field_simps)
    also have "\<dots> = cos (2 * pi / 5)" by (rule cos_2pi_minus)
    finally show ?thesis using c \<open>d = 4\<close> by (simp add: c_def)
  qed
qed


lemma seedPoints_LN_prefix:
  "seedPoints_LN radius is temp st = (temp', st') \<Longrightarrow> k < length temp \<Longrightarrow> temp' ! k = temp ! k"
proof (induction "is" arbitrary: temp st)
  case Nil
  then show ?case by simp
next
  case (Cons i "is")
  obtain v st1 where v: "rng st = (v, st1)" by (cases "rng st")
  let ?p = "Vector3 (radius * 0.4 * cos (real i / real numSeeds * pi * 2)) ((v - 0.5) * 0.1)
      (radius * 0.4 * sin (real i / real numSeeds * pi * 2))"
  from Cons.prems(1) v have rec: "seedPoints_LN radius is (temp @ [?p]) st1 = (temp', st')"
    by (simp add: Let_def)
  from Cons.prems(2) have "k < length (temp @ [?p])" by simp
  from Cons.IH [OF rec this] Cons.prems(2) show ?case by (simp add: nth_append)
qed

lemma seedPoints_LN_nth:
  "seedPoints_LN radius is temp st = (temp', st') \<Longrightarrow> k < length is \<Longrightarrow>
   vec_x (temp' ! (length temp + k)) = radius * 0.4 * cos (real (is ! k) / real numSeeds * pi * 2)
   \<and> vec_z (temp' ! (length temp + k)) = radius * 0.4 * sin (real (is ! k) / real numSeeds * pi * 2)"
proof (induction "is" arbitrary: temp st k)
  case Nil
  then show ?case by simp
next
  case (Cons i "is")
  obtain v st1 where v: "rng st = (v, st1)" by (cases "rng st")
  let ?p = "Vector3 (radius * 0.4 * cos (real i / real numSeeds * pi * 2)) ((v - 0.5) * 0.1)
      (radius * 0.4 * sin (real i / real numSeeds * pi * 2))"
  from Cons.prems(1) v have rec: "seedPoints_LN radius is (temp @ [?p]) st1 = (temp', st')"
    by (simp add: Let_def)
  show ?case
  proof (cases k)
    case 0
    from seedPoints_LN_prefix [OF rec, of "length temp"] have "temp' ! length temp = ?p"
      by simp
    with 0 show ?thesis by simp
  next
    case (Suc k')
    with Cons.prems(2) have "k' < length is" by simp
    from Cons.IH [OF rec this] Suc show ?thesis by simp
  qed
qed

lemma circle_chord:
  assumes "vec_x p = \<rho> * cos a" and "vec_z p = \<rho> * sin a"
    and "vec_x q = \<rho> * cos b" and "vec_z q = \<rho> * sin b"
  shows "distXZ p q = sqrt (\<rho> * \<rho> * (2 - 2 * cos (a - b)))"
proof -
  have sq: "\<And>u v :: real. (\<rho> * u - \<rho> * v) * (\<rho> * u - \<rho> * v) = \<rho> * \<rho> * ((u - v) * (u - v))"
    by (simp add: algebra_simps)
  have ca: "cos a * cos a + sin a * sin a = 1" and cb: "cos b * cos b + sin b * sin b = 1"
    by (rule sin_cos_squared_add3)+
  have "(cos a - cos b) * (cos a - cos b) + (sin a - sin b) * (sin a - sin b)
      = (cos a * cos a + sin a * sin a) + (cos b * cos b + sin b * sin b)
        - 2 * (cos a * cos b + sin a * sin b)"
    by (simp only: algebra_simps)
  also have "\<dots> = 2 - 2 * cos (a - b)"
    by (simp only: ca cb cos_diff)
  finally have "(\<rho> * cos a - \<rho> * cos b) * (\<rho> * cos a - \<rho> * cos b)
      + (\<rho> * sin a - \<rho> * sin b) * (\<rho> * sin a - \<rho> * sin b)
      = \<rho> * \<rho> * (2 - 2 * cos (a - b))"
    by (simp only: sq distrib_left [symmetric])
  with assms show ?thesis by (simp add: distXZ_def Let_def)
qed

lemma seeds_far_apart:
  assumes s: "seedPoints_LN radius [0..<numSeeds] [] st = (seeds, st')"
    and r: "0 \<le> radius" and cnt: "15 \<le> cnt" and ij: "i < j" "j < numSeeds"
  shows "radius / sqrt (real cnt) * 1.8 \<le> distXZ (seeds ! j) (seeds ! i)"
proof -
  let ?a = "\<lambda>k. real k / real numSeeds * pi * 2"
  from ij have i5: "i < numSeeds" by simp
  from seedPoints_LN_nth [OF s, of j] ij
  have pj: "vec_x (seeds ! j) = radius * 0.4 * cos (?a j)"
    "vec_z (seeds ! j) = radius * 0.4 * sin (?a j)" by simp_all
  from seedPoints_LN_nth [OF s, of i] i5
  have pi: "vec_x (seeds ! i) = radius * 0.4 * cos (?a i)"
    "vec_z (seeds ! i) = radius * 0.4 * sin (?a i)" by simp_all
  note d = circle_chord [OF pj pi]
  from ij have "?a j - ?a i = real (j - i) * (2 * pi / 5)"
    by (simp add: numSeeds_def field_simps of_nat_diff)
  moreover from ij have "0 < j - i" "j - i < 5" by (simp_all add: numSeeds_def)
  ultimately have "cos (?a j - ?a i) \<le> 0.325"
    using cos_fifths_pi [of "j - i"] by (simp only:)
  then have "1.35 \<le> 2 - 2 * cos (?a j - ?a i)" by simp
  then have "(radius * 0.4) * (radius * 0.4) * 1.35
      \<le> (radius * 0.4) * (radius * 0.4) * (2 - 2 * cos (?a j - ?a i))"
    by (intro mult_left_mono) simp_all
  then have low: "sqrt ((radius * 0.4) * (radius * 0.4) * 1.35) \<le> distXZ (seeds ! j) (seeds ! i)"
    unfolding d by (simp only: real_sqrt_le_iff)
  from cnt have c15: "(15::real) \<le> real cnt" by simp
  then have cpos: "0 < real cnt" by simp
  have "(radius / sqrt (real cnt) * 1.8)\<^sup>2 = radius * radius * 3.24 / real cnt"
    using cpos by (simp add: power2_eq_square field_simps)
  also have "\<dots> \<le> radius * radius * 3.24 / 15"
    using c15 cpos by (intro divide_left_mono) simp_all
  also have "\<dots> = (radius * 0.4) * (radius * 0.4) * 1.35" by simp
  finally have "sqrt ((radius / sqrt (real cnt) * 1.8)\<^sup>2)
      \<le> sqrt ((radius * 0.4) * (radius * 0.4) * 1.35)"
    by (simp only: real_sqrt_le_iff)
  moreover from r cpos have "0 \<le> radius / sqrt (real cnt) * 1.8" by simp
  ultimately have "radius / sqrt (real cnt) * 1.8 \<le> sqrt ((radius * 0.4) * (radius * 0.4) * 1.35)"
    by (simp only: real_sqrt_abs abs_of_nonneg)
  with low show ?thesis by linarith
qed

subsection \<open>Evaluation at small inputs\<close>

lemma upt5: "[0..<5] = [0, 1, 2, 3, 4]"
  by (simp add: upt_rec)

lemma maxAttempts_Suc: "maxAttempts = Suc 29"
  by (simp add: maxAttempts_def)

lemma particles_5_1_0:
  "particles 5 1 0 =
     Inr [Vector3 (2 / 5) (- (67343 / 2332800)) 0,
          Vector3 (2 * cos (pi * 2 / 5) / 5) (24427 / 1166400) (2 * sin (pi * 2 / 5) / 5),
          Vector3 (2 * cos (4 * pi / 5) / 5) (3637 / 777600) (2 * sin (4 * pi / 5) / 5),
          Vector3 (2 * cos (6 * pi / 5) / 5) (13927 / 583200) (2 * sin (6 * pi / 5) / 5),
          Vector3 (2 * cos (8 * pi / 5) / 5) (2981 / 93312) (2 * sin (8 * pi / 5) / 5)]"
  by (simp add: particles_def seededRandom_def numSeeds_def upt5 rng_def Let_def sampling_LN_stop)

lemma chord_square:
  fixes c s :: real
  assumes "c * c + s * s = 1"
  shows "(2 * c / 5 - 2 / 5) * (2 * c / 5 - 2 / 5) + (2 * s / 5 - 0) * (2 * s / 5 - 0)
     = 8 / 25 - 8 / 25 * c"
proof -
  have "(2 * c / 5 - 2 / 5) * (2 * c / 5 - 2 / 5) + (2 * s / 5 - 0) * (2 * s / 5 - 0)
      = 4 / 25 * (c * c + s * s) - 8 / 25 * c + 4 / 25"
    by (simp add: algebra_simps)
  with assms show ?thesis by simp
qed

lemma seed_chord_bound:
  "distXZ (Vector3 (2 * cos a / 5) y1 (2 * sin a / 5)) (Vector3 (2 / 5) y0 0) \<le> 4 / 5"
proof -
  let ?c = "cos a" and ?s = "sin a"
  have "(2 * ?c / 5 - 2 / 5) * (2 * ?c / 5 - 2 / 5) + (2 * ?s / 5 - 0) * (2 * ?s / 5 - 0)
      = 8 / 25 - 8 / 25 * ?c"
    by (rule chord_square) (rule sin_cos_squared_add3)
  also have "\<dots> \<le> (4 / 5)\<^sup>2"
  proof -
    from cos_ge_minus_one [of a] have "- 1 \<le> ?c" .
    then have "8 / 25 - 8 / 25 * ?c \<le> 16 / 25" by linarith
    then show ?thesis by (simp add: power2_eq_square)
  qed
  finally have "sqrt ((2 * ?c / 5 - 2 / 5) * (2 * ?c / 5 - 2 / 5)
      + (2 * ?s / 5 - 0) * (2 * ?s / 5 - 0)) \<le> sqrt ((4 / 5)\<^sup>2)"
    by (simp only: real_sqrt_le_iff)
  then show ?thesis by (simp add: distXZ_def Let_def)
qed

lemma minDist_5_1: "4 / 5 < 1 / sqrt (real 5) * 1.8"
proof -
  have "sqrt 5 < 9 / 4"
    by (rule real_less_lsqrt) (simp_all add: power2_eq_square)
  moreover have "0 < sqrt 5" by simp
  ultimately show ?thesis by (simp add: field_simps)
qed

lemma particles_6_0_0:
  "particles 6 0 0 =
     Inr [Vector3 0 (- (67343 / 2332800)) 0, Vector3 0 (24427 / 1166400) 0,
          Vector3 0 (3637 / 777600) 0, Vector3 0 (13927 / 583200) 0,
          Vector3 0 (2981 / 93312) 0, Vector3 0 (12097 / 259200) 0]"
proof -
  let ?seeds = "[Vector3 0 (- (67343 / 2332800)) 0, Vector3 0 (24427 / 1166400) 0,
          Vector3 0 (3637 / 777600) 0, Vector3 0 (13927 / 583200) 0,
          Vector3 0 (2981 / 93312) 0]"
  have s: "seedPoints_LN 0 [0..<numSeeds] [] (seededRandom 0) = (?seeds, 191165)"
    by (simp add: seededRandom_def numSeeds_def upt5 rng_def Let_def)
  have r: "rng 191165 = (14802 / 233280, 14802)"
    by (simp add: rng_def Let_def)
  have fl: "nat \<lfloor>(14802 / 233280 :: real) * real (length ?seeds)\<rfloor> = 0"
    by (simp add: floor_eq_iff)
  have a: "attempts_LN 0 0 (?seeds ! nat \<lfloor>(14802 / 233280 :: real) * real (length ?seeds)\<rfloor>)
      ?seeds maxAttempts 14802 = (Some (Vector3 0 (12097 / 259200) 0), 225513)"
    unfolding fl maxAttempts_Suc
    by (subst attempts_LN.simps) (simp add: rng_def Let_def isValid_LN_def)
  have "sampling_LN 6 0 0 ?seeds ?seeds 191165
      = sampling_LN 6 0 0 (?seeds @ [Vector3 0 (12097 / 259200) 0])
          (?seeds @ [Vector3 0 (12097 / 259200) 0]) 225513"
    using sampling_LN_step [OF _ _ r a, of 6] by simp
  also have "\<dots> = Inr (?seeds @ [Vector3 0 (12097 / 259200) 0])"
    by (rule sampling_LN_stop) simp
  finally show ?thesis using s by (simp add: particles_def)
qed

subsection \<open>Agreement, size and spacing of the result\<close>

text \<open>
  C2. The two implementations of the sampler return the same result for the same count,
  radius and seed, and that result is a node sequence (no error is raised); both are
  functions of these three arguments alone (the generator is created afresh from the seed
  inside each call).
\<close>

theorem node_generation_agrees:
  "generateNodePositions cnt radius seed = particles cnt radius seed
   \<and> (\<exists>ps. particles cnt radius seed = Inr ps)"
  using generateNodePositions_eq_particles [of cnt radius seed] particles_length [of cnt radius seed]
  by blast

theorem node_generation_agrees_witness:
  "generateNodePositions 5 1 0 =
     Inr [Vector3 (2 / 5) (- (67343 / 2332800)) 0,
          Vector3 (2 * cos (pi * 2 / 5) / 5) (24427 / 1166400) (2 * sin (pi * 2 / 5) / 5),
          Vector3 (2 * cos (4 * pi / 5) / 5) (3637 / 777600) (2 * sin (4 * pi / 5) / 5),
          Vector3 (2 * cos (6 * pi / 5) / 5) (13927 / 583200) (2 * sin (6 * pi / 5) / 5),
          Vector3 (2 * cos (8 * pi / 5) / 5) (2981 / 93312) (2 * sin (8 * pi / 5) / 5)]"
  using node_generation_agrees [of 5 1 0] particles_5_1_0 by simp

text \<open>
  C3, as stated: the sampler returns at most \<open>count\<close> points. It fails for a count below
  the number of seed points: with count 3 the five seed points are returned.
\<close>

theorem sampler_count_counterexample:
  "particles 3 1 0 =
     Inr [Vector3 (2 / 5) (- (67343 / 2332800)) 0,
          Vector3 (2 * cos (pi * 2 / 5) / 5) (24427 / 1166400) (2 * sin (pi * 2 / 5) / 5),
          Vector3 (2 * cos (4 * pi / 5) / 5) (3637 / 777600) (2 * sin (4 * pi / 5) / 5),
          Vector3 (2 * cos (6 * pi / 5) / 5) (13927 / 583200) (2 * sin (6 * pi / 5) / 5),
          Vector3 (2 * cos (8 * pi / 5) / 5) (2981 / 93312) (2 * sin (8 * pi / 5) / 5)]
   \<and> length (projr (particles 3 1 0)) = 5
   \<and> \<not> length (projr (particles 3 1 0)) \<le> 3"
proof -
  have "particles 3 1 0 =
     Inr [Vector3 (2 / 5) (- (67343 / 2332800)) 0,
          Vector3 (2 * cos (pi * 2 / 5) / 5) (24427 / 1166400) (2 * sin (pi * 2 / 5) / 5),
          Vector3 (2 * cos (4 * pi / 5) / 5) (3637 / 777600) (2 * sin (4 * pi / 5) / 5),
          Vector3 (2 * cos (6 * pi / 5) / 5) (13927 / 583200) (2 * sin (6 * pi / 5) / 5),
          Vector3 (2 * cos (8 * pi / 5) / 5) (2981 / 93312) (2 * sin (8 * pi / 5) / 5)]"
    by (simp add: particles_def seededRandom_def numSeeds_def upt5 rng_def Let_def
        sampling_LN_stop)
  then show ?thesis by simp
qed

text \<open>
  C3, amended: for every count, radius and seed, both implementations of the sampler
  return a node sequence, never an error; it holds the \<open>numSeeds = 5\<close> seed points and at
  most \<open>max count 5\<close> points, so at most \<open>count\<close> points when the count is at least 5. The
  result can be shorter than the count: with a negative radius no candidate is valid and
  exactly the seed points are returned.
\<close>

theorem sampler_size:
  "\<exists>ps. particles cnt radius seed = Inr ps
     \<and> generateNodePositions cnt radius seed = Inr ps
     \<and> numSeeds \<le> length ps \<and> length ps \<le> max cnt numSeeds
     \<and> (radius < 0 \<longrightarrow> length ps = numSeeds)"
proof -
  from particles_length [of cnt radius seed]
  obtain ps where ps: "particles cnt radius seed = Inr ps" "numSeeds \<le> length ps"
    "length ps \<le> max cnt numSeeds"
    by blast
  have "length ps = numSeeds" if "radius < 0"
    using particles_negative_radius [OF that, of cnt seed] ps(1) by simp
  with ps generateNodePositions_eq_particles [of cnt radius seed] show ?thesis by simp
qed

theorem sampler_size_witness:
  "\<not> isl (particles 60 3.5 0) \<and> length (projr (particles 60 3.5 0)) \<le> 60
   \<and> \<not> isl (generateNodePositions 60 (- 1) 0)
   \<and> length (projr (generateNodePositions 60 (- 1) 0)) = 5"
  using sampler_size [of 60 "3.5" 0] sampler_size [of 60 "- 1" 0]
  by (auto simp add: numSeeds_def)

text \<open>
  C4, as stated: every two distinct returned points are at least
  \<open>radius / sqrt count * 1.8\<close> apart. It fails for the seed points, which are placed without
  the check: with count 5 and radius 1 the first two seed points are at most 0.8 apart and
  the minimum distance is more than 0.8.
\<close>

theorem seed_spacing_counterexample:
  "particles 5 1 0 =
     Inr [Vector3 (2 / 5) (- (67343 / 2332800)) 0,
          Vector3 (2 * cos (pi * 2 / 5) / 5) (24427 / 1166400) (2 * sin (pi * 2 / 5) / 5),
          Vector3 (2 * cos (4 * pi / 5) / 5) (3637 / 777600) (2 * sin (4 * pi / 5) / 5),
          Vector3 (2 * cos (6 * pi / 5) / 5) (13927 / 583200) (2 * sin (6 * pi / 5) / 5),
          Vector3 (2 * cos (8 * pi / 5) / 5) (2981 / 93312) (2 * sin (8 * pi / 5) / 5)]
   \<and> distXZ (Vector3 (2 * cos (pi * 2 / 5) / 5) (24427 / 1166400) (2 * sin (pi * 2 / 5) / 5))
        (Vector3 (2 / 5) (- (67343 / 2332800)) 0)
      < 1 / sqrt (real 5) * 1.8"
  using particles_5_1_0 minDist_5_1
    seed_chord_bound [of "pi * 2 / 5" "24427 / 1166400" "- (67343 / 2332800)"]
  by simp

text \<open>
  C4, amended: for a radius that is not negative, the sampler returns a node sequence in
  which every point lies, in the plane of the layer, between \<open>0.15 * radius\<close> and \<open>radius\<close>
  from the centre, the seed points at \<open>0.4 * radius\<close>; every point after the seed points
  is at least \<open>radius / sqrt count * 1.8\<close> away from every point before it; and when the
  count is at least 15 the seed points are that far from each other too, so that every
  two returned points are.
\<close>

theorem sampler_annulus_and_spacing:
  assumes "0 \<le> radius"
  shows "\<exists>ps. particles cnt radius seed = Inr ps
     \<and> (\<forall>p \<in> set ps. 0.15 * radius \<le> distFromCenter p \<and> distFromCenter p \<le> radius)
     \<and> (\<forall>i < numSeeds. distFromCenter (ps ! i) = 0.4 * radius)
     \<and> (\<forall>i j. i < j \<and> j < length ps \<and> numSeeds \<le> j
          \<longrightarrow> radius / sqrt (real cnt) * 1.8 \<le> distXZ (ps ! j) (ps ! i))
     \<and> (15 \<le> cnt \<longrightarrow>
          (\<forall>i j. i < j \<and> j < length ps
             \<longrightarrow> radius / sqrt (real cnt) * 1.8 \<le> distXZ (ps ! j) (ps ! i)))"
proof -
  from particles_sampled [OF assms, of seed cnt]
  obtain ps seeds st where
    s: "seedPoints_LN radius [0..<numSeeds] [] (seededRandom seed) = (seeds, st)"
    and len: "length seeds = numSeeds"
    and sd: "\<forall>p \<in> set seeds. distFromCenter p = radius * 0.4"
    and ps: "particles cnt radius seed = Inr ps"
    and inv: "sampled radius (radius / sqrt (real cnt) * 1.8) seeds ps"
    by blast
  from inv have tk: "take numSeeds ps = seeds"
    and ann: "\<forall>p \<in> set ps. radius * 0.15 \<le> distFromCenter p \<and> distFromCenter p \<le> radius"
    and far: "\<forall>i j. i < j \<and> j < length ps \<and> numSeeds \<le> j
        \<longrightarrow> radius / sqrt (real cnt) * 1.8 \<le> distXZ (ps ! j) (ps ! i)"
    by (simp_all add: sampled_def)
  have nth: "ps ! i = seeds ! i" if "i < numSeeds" for i
    using that tk by (metis nth_take)
  have sdist: "distFromCenter (ps ! i) = 0.4 * radius" if "i < numSeeds" for i
  proof -
    from that len have "seeds ! i \<in> set seeds" by simp
    with nth [OF that] sd show ?thesis by simp
  qed
  have all: "radius / sqrt (real cnt) * 1.8 \<le> distXZ (ps ! j) (ps ! i)"
    if "15 \<le> cnt" "i < j" "j < length ps" for i j
  proof (cases "numSeeds \<le> j")
    case True
    with far that show ?thesis by blast
  next
    case False
    then have j: "j < numSeeds" by simp
    with that have i: "i < numSeeds" by simp
    from seeds_far_apart [OF s assms that(1,2) j] nth [OF i] nth [OF j] show ?thesis by simp
  qed
  from ps ann sdist far all show ?thesis by (simp add: mult.commute)
qed

theorem sampler_annulus_and_spacing_witness:
  "distFromCenter (projr (particles 5 1 0) ! 0) = 0.4
   \<and> length (projr (particles 6 0 0)) = 6
   \<and> 0 / sqrt (real 6) * 1.8 \<le> distXZ (projr (particles 6 0 0) ! 5) (projr (particles 6 0 0) ! 0)
   \<and> distFromCenter (projr (particles 6 0 0) ! 5) \<le> 0
   \<and> 3.5 / sqrt (real 60) * 1.8
        \<le> distXZ (projr (particles 60 3.5 0) ! 1) (projr (particles 60 3.5 0) ! 0)"
proof -
  have h1: "(0::real) \<le> 1" and h0: "(0::real) \<le> 0" and h3: "(0::real) \<le> 3.5" by simp_all
  from sampler_annulus_and_spacing [OF h1, of 5 0]
  have a: "distFromCenter (projr (particles 5 1 0) ! 0) = 0.4"
    by (auto simp add: numSeeds_def)
  have l: "length (projr (particles 6 0 0)) = 6"
    by (simp add: particles_6_0_0)
  from sampler_annulus_and_spacing [OF h0, of 6 0] l
  have b: "0 / sqrt (real 6) * 1.8 \<le> distXZ (projr (particles 6 0 0) ! 5) (projr (particles 6 0 0) ! 0)
    \<and> distFromCenter (projr (particles 6 0 0) ! 5) \<le> 0"
    by (auto simp add: numSeeds_def)
  from particles_length [of 60 "3.5" 0]
  have l60: "1 < length (projr (particles 60 3.5 0))"
    by (auto simp add: numSeeds_def)
  from sampler_annulus_and_spacing [OF h3, of 60 0] l60
  have c: "3.5 / sqrt (real 60) * 1.8
        \<le> distXZ (projr (particles 60 3.5 0) ! 1) (projr (particles 60 3.5 0) ! 0)"
    by auto
  from a l b c show ?thesis by simp
qed

section \<open>Properties of the random subset of edges\<close>










end
